theory Spec2Isabelle
  imports Complex_Main "HOL-Library.Multiset" "HOL-Library.Log_Nat"
begin

unbundle bit_operations_syntax

section \<open>The osu! ruleset of danser-go: data model\<close>

text \<open>
  The development embeds \<^verbatim>\<open>OsuRuleSet\<close> (package \<^verbatim>\<open>osu\<close>, the ruleset file of the
  sources) function by function. Conventions:

  \<^item> Go's \<^verbatim>\<open>int64\<close> and \<^verbatim>\<open>int\<close> are HOL integers. The arithmetic the source performs on
    its counters and on times is wrapped by \<open>i64\<close>, the two's-complement reduction to 64
    bits; arithmetic on slice lengths and loop indexes, which cannot leave the range, is
    written without it.
  \<^item> A \<^verbatim>\<open>float64\<close> is the real number it stands for. What the source computes in
    \<^verbatim>\<open>float64\<close> (a sum, a difference, a product, a quotient, the conversion of an \<^verbatim>\<open>int64\<close>) is
    the exact result rounded by \<open>fl64\<close>, the quotients of the grade test apart (see \<open>quotGt\<close>);
    comparisons are exact. The conversion \<^verbatim>\<open>int64(f)\<close> truncates towards zero.
  \<^item> A panic of the source (index out of range, nil dereference) is the value \<open>None\<close>.
  \<^item> A pointer is modelled by what the code reads through it; where the code compares
    pointers (\<^verbatim>\<open>g == object\<close>, the keys of the \<^verbatim>\<open>cursors\<close> map) the object carries its
    identity in a field.
  \<^item> A listener is a callback of the caller; the state records whether one is registered,
    and every function returns, next to the new state, the list of listener calls it made.
\<close>

subsection \<open>Machine integers and float conversion\<close>

definition i64 :: "int \<Rightarrow> int" where
  "i64 x = (x + 9223372036854775808) mod 18446744073709551616 - 9223372036854775808"

text \<open>
  \<open>truncR\<close> is the conversion \<^verbatim>\<open>int64(f)\<close> of a value within the range of \<^verbatim>\<open>int64\<close>; outside
  that range the result of the source depends on the implementation and is not modelled.
\<close>

definition truncR :: "real \<Rightarrow> int" where
  "truncR x = (if 0 \<le> x then \<lfloor>x\<rfloor> else \<lceil>x\<rceil>)"

text \<open>
  Rounding to \<^verbatim>\<open>float64\<close>: to the nearest number with a significand of 53 bits, a tie going
  to the even significand. \<open>rne\<close> rounds to the nearest integer, a tie going to the even one;
  \<open>expo a\<close> is, for a positive \<open>a\<close>, the \<open>k\<close> with \<open>2 powi (k - 1) \<le> a < 2 powi k\<close>. The exponent
  is not bounded: the infinities and the subnormal numbers of \<^verbatim>\<open>float64\<close> are not modelled,
  the times and the scores of the ruleset being far from both.
\<close>

definition rne :: "real \<Rightarrow> int" where
  "rne y =
     (let f = \<lfloor>y\<rfloor>; d = y - of_int f
      in if d < 1 / 2 then f else if d > 1 / 2 then f + 1 else if even f then f else f + 1)"

definition expo :: "real \<Rightarrow> int" where
  "expo a =
     (if 1 \<le> a then bitlen \<lfloor>a\<rfloor>
      else (let k = bitlen \<lfloor>1 / a\<rfloor> in if a * 2 ^ nat (k - 1) = 1 then 2 - k else 1 - k))"

definition fl64 :: "real \<Rightarrow> real" where
  "fl64 x =
     (if x = 0 then 0
      else (let a = \<bar>x\<bar>; s = 2 powi (53 - expo a) in sgn x * (of_int (rne (a * s)) / s)))"

text \<open>
  \<^verbatim>\<open>mutils.MaxI64\<close> is not among the sources; it is taken to be the maximum of its two
  arguments.
\<close>

definition MaxI64 :: "int \<Rightarrow> int \<Rightarrow> int" where
  "MaxI64 a b = (if a > b then a else b)"

subsection \<open>Enumerations of the ruleset file\<close>

definition Tolerance2B :: real where
  "Tolerance2B = 3"

datatype Grade = D | C | B | A | S | SH | SS | SSH | NONE

datatype ClickAction = Ignored | Shake | Click

datatype ComboResult = Reset | Hold | Increase

subsection \<open>Modifiers\<close>

text \<open>
  Modelled from the spec: package \<^verbatim>\<open>difficulty\<close> is not among the sources. The spec calls the
  modifier set "an opaque flag set per player"; a \<^verbatim>\<open>Modifier\<close> is the set of its flags,
  \<^verbatim>\<open>a | b\<close> is the union, and \<^verbatim>\<open>Mods.Active(m)\<close>, \<^verbatim>\<open>diff.CheckModActive(m)\<close> and the
  explicit test \<^verbatim>\<open>Mods & m > 0\<close> of \<^verbatim>\<open>SendResult\<close> all ask whether some flag of \<open>m\<close> is set.
  Only the flags the ruleset file names are distinguished.
\<close>

datatype Mod = NoFail | Easy | Hidden | Flashlight | Relax | Relax2 | ScoreV2 | OtherMod nat

type_synonym Modifier = "Mod set"

definition Active :: "Modifier \<Rightarrow> Modifier \<Rightarrow> bool" where
  "Active mods m = (mods \<inter> m \<noteq> {})"

subsection \<open>Players, beatmap objects, ruleset objects\<close>

type_synonym Cursor = nat

datatype Button = Left | Right

record buttonState =
  bLeft :: bool
  bRight :: bool

text \<open>
  The bit mask \<^verbatim>\<open>Buttons\<close> of a player, built from \<^verbatim>\<open>Left\<close> and \<^verbatim>\<open>Right\<close> with \<^verbatim>\<open>|=\<close>, is the set of
  the buttons that are down.
\<close>

record difficultyPlayer =
  cursor :: Cursor
  Mods :: Modifier
  DoubleClick :: bool
  alreadyStolen :: bool
  buttons :: buttonState
  gameDownState :: bool
  mouseDownButton :: "Button set"
  lastButton :: "Button set"
  lastButton2 :: "Button set"
  leftCond :: bool
  leftCondE :: bool
  rightCond :: bool
  rightCondE :: bool

definition CheckModActive :: "difficultyPlayer \<Rightarrow> Modifier \<Rightarrow> bool" where
  "CheckModActive player m = Active (Mods player) m"

datatype ObjKind = Circle | Slider | Spinner

text \<open>
  \<^verbatim>\<open>objects.IHitObject\<close>, an element of \<^verbatim>\<open>beatMap.HitObjects\<close>: the record holds what the
  ruleset file reads from it (\<^verbatim>\<open>GetStartTime\<close>, \<^verbatim>\<open>GetEndTime\<close>, \<^verbatim>\<open>GetStackIndex(mods)\<close>,
  \<^verbatim>\<open>IsNewCombo\<close>, the dynamic type, and \<^verbatim>\<open>len(s.ScorePoints)\<close> of a slider).
\<close>

record IHitObject =
  objKind :: ObjKind
  StartTime :: real
  EndTime :: real
  StackIndex :: "Modifier \<Rightarrow> int"
  NewCombo :: bool
  ScorePoints :: nat

text \<open>
  The ruleset's own \<^verbatim>\<open>HitObject\<close> interface value (\<^verbatim>\<open>*Circle\<close>, \<^verbatim>\<open>*Slider\<close>, \<^verbatim>\<open>*Spinner\<close>):
  its pointer identity, its dynamic type, and the answers of \<^verbatim>\<open>GetNumber\<close>, \<^verbatim>\<open>GetFadeTime\<close>
  and \<^verbatim>\<open>IsHit(player)\<close>, the last one per player.
\<close>

record HitObject =
  ref :: nat
  kind :: ObjKind
  number :: int
  fadeTime :: int
  IsHit :: "Cursor \<Rightarrow> bool"

definition HitObjectsAt :: "IHitObject list \<Rightarrow> int \<Rightarrow> IHitObject option" where
  "HitObjectsAt hs n = (if 0 \<le> n \<and> n < int (length hs) then Some (hs ! nat n) else None)"

section \<open>The click-eligibility resolver\<close>

text \<open>
  \<^verbatim>\<open>CanBeHit\<close> reads the beatmap objects, the active set \<^verbatim>\<open>processed\<close> and the player.
  \<^verbatim>\<open>difficulty.HittableRange\<close> is a constant of a package that is not among the sources; it
  is the first parameter.
\<close>

text \<open>The first loop: \<open>index\<close> is the last position of \<open>processed\<close> holding the candidate.\<close>

fun findIndex :: "nat \<Rightarrow> HitObject list \<Rightarrow> nat \<Rightarrow> int \<Rightarrow> int" where
  "findIndex r [] i index = index"
| "findIndex r (g # gs) i index = findIndex r gs (Suc i) (if ref g = r then int i else index)"

definition stackCheck :: "IHitObject list \<Rightarrow> HitObject list \<Rightarrow> HitObject \<Rightarrow> difficultyPlayer \<Rightarrow> bool option" where
  "stackCheck hs processed object player =
     (if kind object = Circle then
        (let index = findIndex (ref object) processed 0 (-1) in
         if index > 0 then
           (let prev = processed ! nat (index - 1) in
            case HitObjectsAt hs (number prev) of
              None \<Rightarrow> None
            | Some b \<Rightarrow> Some (StackIndex b (Mods player) > 0 \<and> \<not> IsHit prev (cursor player)))
         else Some False)
      else Some False)"

text \<open>
  The second loop. \<open>Some True\<close>: the loop returned \<^verbatim>\<open>Shake\<close>; \<open>Some False\<close>: it ended, by
  \<^verbatim>\<open>break\<close> or at the end of \<open>processed\<close>.
\<close>

fun orderScan :: "IHitObject list \<Rightarrow> HitObject \<Rightarrow> difficultyPlayer \<Rightarrow> HitObject list \<Rightarrow> bool option" where
  "orderScan hs object player [] = Some False"
| "orderScan hs object player (g # gs) =
     (if \<not> IsHit g (cursor player) then
        (if number g \<noteq> number object then
           (case HitObjectsAt hs (number g) of
              None \<Rightarrow> None
            | Some a \<Rightarrow>
               (case HitObjectsAt hs (number object) of
                  None \<Rightarrow> None
                | Some b \<Rightarrow>
                    if fl64 (EndTime a + Tolerance2B) < StartTime b then Some True
                    else orderScan hs object player gs))
         else Some False)
      else orderScan hs object player gs)"

definition hitRangeOf :: "real \<Rightarrow> difficultyPlayer \<Rightarrow> real" where
  "hitRangeOf hittableRange player =
     (if CheckModActive player {Relax2} then fl64 (hittableRange - 200) else hittableRange)"

definition CanBeHit ::
  "real \<Rightarrow> IHitObject list \<Rightarrow> HitObject list \<Rightarrow> int \<Rightarrow> HitObject \<Rightarrow> difficultyPlayer \<Rightarrow> ClickAction option" where
  "CanBeHit hittableRange hs processed time object player =
     (case stackCheck hs processed object player of
        None \<Rightarrow> None
      | Some True \<Rightarrow> Some Ignored
      | Some False \<Rightarrow>
         (case orderScan hs object player processed of
            None \<Rightarrow> None
          | Some True \<Rightarrow> Some Shake
          | Some False \<Rightarrow>
             (case HitObjectsAt hs (number object) of
                None \<Rightarrow> None
              | Some b \<Rightarrow>
                  if \<bar>fl64 (real_of_int (i64 (time - truncR (StartTime b))))\<bar> \<ge> hitRangeOf hittableRange player
                  then Some Shake else Some Click)))"

section \<open>Declarations the ruleset file uses from other files\<close>

subsection \<open>Judgement outcomes\<close>

text \<open>
  \<^verbatim>\<open>HitResult\<close> is an \<^verbatim>\<open>int64\<close> bit mask whose constants and whose method \<^verbatim>\<open>ScoreValue\<close> are
  declared in a file that is not among the sources. The constants the ruleset file names
  and \<^verbatim>\<open>ScoreValue\<close> are parameters, collected in one record; \<^verbatim>\<open>r & m\<close> is \<open>r AND m\<close> and
  \<^verbatim>\<open>r | m\<close> is \<open>r OR m\<close> on integers.
\<close>

type_synonym HitResult = int

record HitResults =
  Ignore :: HitResult
  PositionalMiss :: HitResult
  Miss :: HitResult
  Hit50 :: HitResult
  Hit100 :: HitResult
  Hit300 :: HitResult
  BaseHits :: HitResult
  BaseHitsM :: HitResult
  GekiAddition :: HitResult
  KatuAddition :: HitResult
  MuAddition :: HitResult
  ScoreValue :: "HitResult \<Rightarrow> int"

subsection \<open>The beatmap\<close>

record BeatMap =
  HitObjects :: "IHitObject list"
  DiffMods :: Modifier

record MapTo =
  ncircles :: int
  nsliders :: int
  nobjects :: int
  mapMaxCombo :: int

subsection \<open>Score processor, health processor, performance calculator\<close>

text \<open>
  The two \<^verbatim>\<open>scoreProcessor\<close> implementations, \<^verbatim>\<open>HealthProcessor\<close> and package
  \<^verbatim>\<open>performance\<close> are not among the sources. Their states are the type parameters
  \<open>'sp\<close>, \<open>'hp\<close>, \<open>'pp\<close> and \<open>'st\<close> (one entry of a star-rating table), and their
  operations are the fields of the record below, next to the constants of other packages.
  A health operation that can run the registered fail callback returns, with the new
  health state, whether it did; the ruleset then runs \<open>failInternal\<close>, the body of that
  callback.
\<close>

record ('sp, 'hp, 'pp, 'st) Externals =
  results :: HitResults
  DifficultyAdjustMask :: Modifier
  UseLazerPP :: bool
  newScoreV1Processor :: 'sp
  newScoreV2Processor :: 'sp
  spInit :: "BeatMap \<Rightarrow> Cursor \<Rightarrow> Modifier \<Rightarrow> 'sp \<Rightarrow> 'sp"
  spAddResult :: "HitResult \<Rightarrow> ComboResult \<Rightarrow> 'sp \<Rightarrow> 'sp"
  spModifyResult :: "HitResult \<Rightarrow> HitObject \<Rightarrow> 'sp \<Rightarrow> HitResult"
  spGetScore :: "'sp \<Rightarrow> int"
  spGetCombo :: "'sp \<Rightarrow> int"
  NewHealthProcessor :: "BeatMap \<Rightarrow> Modifier \<Rightarrow> bool \<Rightarrow> 'hp"
  hpUpdate :: "int \<Rightarrow> 'hp \<Rightarrow> 'hp \<times> bool"
  hpAddResult :: "HitResult \<Rightarrow> 'hp \<Rightarrow> 'hp \<times> bool"
  hpIncrease :: "real \<Rightarrow> bool \<Rightarrow> 'hp \<Rightarrow> 'hp"
  hpHealth :: "'hp \<Rightarrow> real"
  MaxHp :: real
  CalculateStep :: "IHitObject list \<Rightarrow> Modifier \<Rightarrow> bool \<Rightarrow> 'st list"
  newPPv2 :: 'pp
  PPv2x :: "'st \<Rightarrow> bool \<Rightarrow> MapTo \<Rightarrow> int \<Rightarrow> int \<Rightarrow> int \<Rightarrow> int \<Rightarrow> int \<Rightarrow> Modifier \<Rightarrow> 'pp \<Rightarrow> 'pp"
  newObject :: "nat \<Rightarrow> IHitObject \<Rightarrow> HitObject"

section \<open>The state of the ruleset\<close>

record ('sp, 'hp, 'pp) subSet =
  player :: difficultyPlayer
  rawScore :: int
  accuracy :: real
  maxCombo :: int
  numObjects :: int
  grade :: Grade
  ppv2 :: 'pp
  hits :: "HitResult \<Rightarrow> int"
  currentKatu :: int
  currentBad :: int
  hp :: 'hp
  gekiCount :: int
  katuCount :: int
  recoveries :: int
  scoreProcessor :: 'sp
  failed :: bool

text \<open>
  \<open>hits\<close> is a Go map read with the zero default, hence a total function; \<open>oppDiffs\<close> is a
  Go map of slices, a missing key reading as the nil slice \<open>[]\<close>. The three listener fields
  say whether a listener is registered.
\<close>

record ('sp, 'hp, 'pp, 'st) OsuRuleSet =
  beatMap :: BeatMap
  cursors :: "Cursor \<rightharpoonup> ('sp, 'hp, 'pp) subSet"
  ended :: bool
  mapStats :: "MapTo list"
  oppDiffs :: "Modifier \<Rightarrow> 'st list"
  queue :: "HitObject list"
  processed :: "HitObject list"
  hitListener :: bool
  endListener :: bool
  failListener :: bool
  experimentalPP :: bool

text \<open>The calls the ruleset makes to the listeners, in the order it makes them.\<close>

datatype 'pp Event =
    HitEvent Cursor int int "real \<times> real" HitResult ComboResult 'pp int
  | EndEvent int int
  | FailEvent Cursor

section \<open>Construction\<close>

text \<open>
  \<^verbatim>\<open>NewOsuRuleset\<close>, first loop: the prefix aggregates. At iteration \<open>i\<close> the slice
  \<open>stats\<close> holds \<open>i\<close> entries, so \<^verbatim>\<open>i > 0\<close> is \<open>stats \<noteq> []\<close> and \<^verbatim>\<open>mapStats[i-1]\<close> is its last one.
\<close>

definition nextMapTo :: "MapTo \<Rightarrow> IHitObject \<Rightarrow> MapTo" where
  "nextMapTo mapTo ob =
     (let mapTo1 =
        (case objKind ob of
           Slider \<Rightarrow> mapTo\<lparr>nsliders := i64 (nsliders mapTo + 1),
                              mapMaxCombo := i64 (mapMaxCombo mapTo + int (ScorePoints ob))\<rparr>
         | Circle \<Rightarrow> mapTo\<lparr>ncircles := i64 (ncircles mapTo + 1)\<rparr>
         | Spinner \<Rightarrow> mapTo)
      in mapTo1\<lparr>mapMaxCombo := i64 (mapMaxCombo mapTo1 + 1), nobjects := i64 (nobjects mapTo1 + 1)\<rparr>)"

fun buildMapStats :: "IHitObject list \<Rightarrow> MapTo list \<Rightarrow> MapTo list" where
  "buildMapStats [] stats = stats"
| "buildMapStats (ob # obs) stats =
     buildMapStats obs
       (stats @ [nextMapTo (if stats \<noteq> [] then last stats
                            else \<lparr>ncircles = 0, nsliders = 0, nobjects = 0, mapMaxCombo = 0\<rparr>) ob])"

record CursorInfo =
  cid :: Cursor
  OldSpinnerScoring :: bool

definition newPlayer :: "Cursor \<Rightarrow> Modifier \<Rightarrow> difficultyPlayer" where
  "newPlayer c m =
     \<lparr>cursor = c, Mods = m, DoubleClick = False, alreadyStolen = False,
      buttons = \<lparr>bLeft = False, bRight = False\<rparr>, gameDownState = False,
      mouseDownButton = {}, lastButton = {}, lastButton2 = {},
      leftCond = False, leftCondE = False, rightCond = False, rightCondE = False\<rparr>"

definition newSubSet ::
  "('sp, 'hp, 'pp, 'st) Externals \<Rightarrow> BeatMap \<Rightarrow> CursorInfo \<Rightarrow> difficultyPlayer \<Rightarrow> ('sp, 'hp, 'pp) subSet" where
  "newSubSet X bm c pl =
     \<lparr>player = pl, rawScore = 0, accuracy = 100, maxCombo = 0, numObjects = 0, grade = NONE,
      ppv2 = newPPv2 X, hits = (\<lambda>_. 0), currentKatu = 0, currentBad = 0,
      hp = NewHealthProcessor X bm (Mods pl) (\<not> OldSpinnerScoring c),
      gekiCount = 0, katuCount = 0,
      recoveries = (if CheckModActive pl {Easy} then 2 else 0),
      scoreProcessor = spInit X bm (cid c) (Mods pl)
         (if CheckModActive pl {ScoreV2} then newScoreV2Processor X else newScoreV1Processor X),
      failed = False\<rparr>"

text \<open>
  Second loop, over \<^verbatim>\<open>cursors\<close> with \<^verbatim>\<open>mods[i]\<close> read at the same index: it panics when
  \<^verbatim>\<open>mods\<close> is the shorter slice, and when a freshly computed star table is empty (the
  source reads its last entry).
\<close>

fun initPlayers ::
  "('sp, 'hp, 'pp, 'st) Externals \<Rightarrow> BeatMap \<Rightarrow> bool \<Rightarrow> CursorInfo list \<Rightarrow> Modifier list \<Rightarrow>
   (Cursor \<rightharpoonup> ('sp, 'hp, 'pp) subSet) \<Rightarrow> (Modifier \<Rightarrow> 'st list) \<Rightarrow>
   ((Cursor \<rightharpoonup> ('sp, 'hp, 'pp) subSet) \<times> (Modifier \<Rightarrow> 'st list)) option" where
  "initPlayers X bm e [] ms cm od = Some (cm, od)"
| "initPlayers X bm e (c # cs) [] cm od = None"
| "initPlayers X bm e (c # cs) (m # ms) cm od =
     (let pl = newPlayer (cid c) (m \<union> (DiffMods bm \<inter> {ScoreV2}));
          key = m \<inter> DifficultyAdjustMask X;
          stars = CalculateStep X (HitObjects bm) (Mods pl) e
      in if od key = [] \<and> stars = [] then None
         else initPlayers X bm e cs ms
                (cm(cid c \<mapsto> newSubSet X bm c pl))
                (if od key = [] then od(key := stars) else od))"

text \<open>
  Third loop: one ruleset object per beatmap object, in order. What \<^verbatim>\<open>Init\<close> stores is
  external (\<open>newObject\<close>); the identity and the dynamic type are those the source gives.
\<close>

fun initQueue :: "('sp, 'hp, 'pp, 'st) Externals \<Rightarrow> nat \<Rightarrow> IHitObject list \<Rightarrow> HitObject list" where
  "initQueue X i [] = []"
| "initQueue X i (ob # obs) = (newObject X i ob)\<lparr>ref := i, kind := objKind ob\<rparr> # initQueue X (Suc i) obs"

definition NewOsuRuleset ::
  "('sp, 'hp, 'pp, 'st) Externals \<Rightarrow> BeatMap \<Rightarrow> CursorInfo list \<Rightarrow> Modifier list \<Rightarrow>
   ('sp, 'hp, 'pp, 'st) OsuRuleSet option" where
  "NewOsuRuleset X bm cs ms =
     (case initPlayers X bm (UseLazerPP X) cs ms Map.empty (\<lambda>_. []) of
        None \<Rightarrow> None
      | Some (cm, od) \<Rightarrow>
          Some \<lparr>beatMap = bm, cursors = cm, ended = False,
                mapStats = buildMapStats (HitObjects bm) [],
                oppDiffs = od,
                queue = initQueue X 0 (HitObjects bm), processed = [],
                hitListener = False, endListener = False, failListener = False,
                experimentalPP = UseLazerPP X\<rparr>)"

definition SetListener :: "('sp, 'hp, 'pp, 'st) OsuRuleSet \<Rightarrow> ('sp, 'hp, 'pp, 'st) OsuRuleSet" where
  "SetListener rs = rs\<lparr>hitListener := True\<rparr>"

definition SetEndListener :: "('sp, 'hp, 'pp, 'st) OsuRuleSet \<Rightarrow> ('sp, 'hp, 'pp, 'st) OsuRuleSet" where
  "SetEndListener rs = rs\<lparr>endListener := True\<rparr>"

definition SetFailListener :: "('sp, 'hp, 'pp, 'st) OsuRuleSet \<Rightarrow> ('sp, 'hp, 'pp, 'st) OsuRuleSet" where
  "SetFailListener rs = rs\<lparr>failListener := True\<rparr>"

section \<open>Failing\<close>

text \<open>
  \<^verbatim>\<open>failInternal\<close>. The lookup \<^verbatim>\<open>set.cursors[player.cursor]\<close> yields nil for a missing key;
  the source dereferences it only after the immunity test.
\<close>

definition failInternal ::
  "('sp, 'hp, 'pp, 'st) Externals \<Rightarrow> ('sp, 'hp, 'pp, 'st) OsuRuleSet \<Rightarrow> difficultyPlayer \<Rightarrow>
   (('sp, 'hp, 'pp, 'st) OsuRuleSet \<times> 'pp Event list) option" where
  "failInternal X rs pl =
     (if CheckModActive pl ({NoFail} \<union> {Relax} \<union> {Relax2}) then Some (rs, [])
      else
        (case cursors rs (cursor pl) of
           None \<Rightarrow> None
         | Some sub \<Rightarrow>
             if recoveries sub > 0 then
               Some (rs\<lparr>cursors := (cursors rs)(cursor pl \<mapsto>
                            sub\<lparr>hp := hpIncrease X 160 False (hp sub),
                                recoveries := i64 (recoveries sub - 1)\<rparr>)\<rparr>, [])
             else
               Some (rs\<lparr>cursors := (cursors rs)(cursor pl \<mapsto> sub\<lparr>failed := True\<rparr>)\<rparr>,
                     (if failListener rs \<and> \<not> failed sub then [FailEvent (cursor pl)] else []))))"

section \<open>Result aggregation\<close>

subsection \<open>The counting block, accuracy and grade\<close>

definition countResult :: "HitResults \<Rightarrow> HitResult \<Rightarrow> ('sp, 'hp, 'pp) subSet \<Rightarrow> ('sp, 'hp, 'pp) subSet" where
  "countResult K result sub =
     (if result AND BaseHitsM K > 0 then
        sub\<lparr>rawScore := i64 (rawScore sub + ScoreValue K result),
            hits := (hits sub)(result := i64 (hits sub result + 1)),
            numObjects := i64 (numObjects sub + 1)\<rparr>
      else sub)"

definition updateAccuracy :: "('sp, 'hp, 'pp) subSet \<Rightarrow> ('sp, 'hp, 'pp) subSet" where
  "updateAccuracy sub =
     (if numObjects sub = 0 then sub\<lparr>accuracy := 100\<rparr>
      else sub\<lparr>accuracy := fl64 (fl64 (100 * fl64 (real_of_int (rawScore sub)))
                                 / fl64 (real_of_int (i64 (numObjects sub * 300))))\<rparr>)"

text \<open>
  The comparisons \<^verbatim>\<open>float64(a)/float64(b) > c\<close> and \<^verbatim>\<open>float64(a)/float64(b) < c\<close>. For
  \<open>b = 0\<close> the quotient of the source is an infinity or NaN, and the comparison has the
  value written out here. The quotient and the constant are compared unrounded; up to
  \<open>10^13\<close> counted objects the roundings of the source do not change the outcome (lemmas
  \<open>quotGt_float64\<close> and \<open>quotLt_float64\<close>).
\<close>

definition quotGt :: "int \<Rightarrow> int \<Rightarrow> real \<Rightarrow> bool" where
  "quotGt a b c = (if b = 0 then a > 0 else real_of_int a / real_of_int b > c)"

definition quotLt :: "int \<Rightarrow> int \<Rightarrow> real \<Rightarrow> bool" where
  "quotLt a b c = (if b = 0 then a < 0 else real_of_int a / real_of_int b < c)"

definition hiddenOrFlashlight :: "('sp, 'hp, 'pp) subSet \<Rightarrow> bool" where
  "hiddenOrFlashlight sub = (Mods (player sub) \<inter> ({Hidden} \<union> {Flashlight}) \<noteq> {})"

definition updateGrade :: "HitResults \<Rightarrow> ('sp, 'hp, 'pp) subSet \<Rightarrow> ('sp, 'hp, 'pp) subSet" where
  "updateGrade K sub =
     (let h300 = hits sub (Hit300 K); n = numObjects sub in
      if h300 = n then
        (if hiddenOrFlashlight sub then sub\<lparr>grade := SSH\<rparr> else sub\<lparr>grade := SS\<rparr>)
      else if quotGt h300 n 0.9 \<and> quotLt (hits sub (Hit50 K)) n 0.01 \<and> hits sub (Miss K) = 0 then
        (if hiddenOrFlashlight sub then sub\<lparr>grade := SH\<rparr> else sub\<lparr>grade := S\<rparr>)
      else if quotGt h300 n 0.8 \<and> hits sub (Miss K) = 0 \<or> quotGt h300 n 0.9 then sub\<lparr>grade := A\<rparr>
      else if quotGt h300 n 0.7 \<and> hits sub (Miss K) = 0 \<or> quotGt h300 n 0.8 then sub\<lparr>grade := B\<rparr>
      else if quotGt h300 n 0.6 then sub\<lparr>grade := C\<rparr>
      else sub\<lparr>grade := D\<rparr>)"

subsection \<open>Combo runs\<close>

text \<open>The \<^verbatim>\<open>switch result\<close>: the first case whose constant equals \<open>result\<close> runs.\<close>

definition countRun :: "HitResults \<Rightarrow> HitResult \<Rightarrow> ('sp, 'hp, 'pp) subSet \<Rightarrow> ('sp, 'hp, 'pp) subSet" where
  "countRun K result sub =
     (if result = Hit100 K then sub\<lparr>currentKatu := i64 (currentKatu sub + 1)\<rparr>
      else if result = Hit50 K \<or> result = Miss K then sub\<lparr>currentBad := i64 (currentBad sub + 1)\<rparr>
      else sub)"

text \<open>
  \<^verbatim>\<open>sort.Search(n, f)\<close> of the Go library: binary search for the least index in \<open>[0, n]\<close>
  from which \<open>f\<close> holds, for a predicate that is false and then true.
\<close>

function searchFrom :: "(nat \<Rightarrow> bool) \<Rightarrow> nat \<Rightarrow> nat \<Rightarrow> nat" where
  "searchFrom f i j =
     (if i < j then
        (if \<not> f ((i + j) div 2) then searchFrom f ((i + j) div 2 + 1) j
         else searchFrom f i ((i + j) div 2))
      else i)"
  by pat_completeness auto
termination
  by (relation "measure (\<lambda>(f, i, j). j - i)") auto

definition Search :: "nat \<Rightarrow> (nat \<Rightarrow> bool) \<Rightarrow> nat" where
  "Search n f = searchFrom f 0 n"

text \<open>
  The backward loop from \<open>index - 1\<close> to \<open>0\<close>, given the objects it visits in the order it
  visits them. Its value is \<open>allClicked\<close>.
\<close>

fun allClickedLoop :: "IHitObject list \<Rightarrow> Cursor \<Rightarrow> HitObject list \<Rightarrow> bool option" where
  "allClickedLoop hs c [] = Some True"
| "allClickedLoop hs c (obj # objs) =
     (if \<not> IsHit obj c then Some False
      else
        (case HitObjectsAt hs (number obj) of
           None \<Rightarrow> None
         | Some b \<Rightarrow> if NewCombo b then Some True else allClickedLoop hs c objs))"

definition allClickedOf :: "IHitObject list \<Rightarrow> HitObject list \<Rightarrow> Cursor \<Rightarrow> int \<Rightarrow> bool option" where
  "allClickedOf hs procd c num =
     (let index = Search (length procd) (\<lambda>i. number (procd ! i) \<ge> num)
      in allClickedLoop hs c (rev (take index procd)))"

text \<open>The condition of the \<^verbatim>\<open>if\<close> that closes a combo run; \<open>None\<close> is the index panic.\<close>

definition closesRun :: "HitResults \<Rightarrow> IHitObject list \<Rightarrow> int \<Rightarrow> HitResult \<Rightarrow> bool option" where
  "closesRun K hs num result =
     (if result AND BaseHitsM K > 0 then
        (if num = int (length hs) - 1 then Some True
         else if num < int (length hs) - 1 then
           (case HitObjectsAt hs (i64 (num + 1)) of
              None \<Rightarrow> None
            | Some nx \<Rightarrow> Some (NewCombo nx))
         else Some False)
      else Some False)"

text \<open>The body of that \<^verbatim>\<open>if\<close>, given \<open>allClicked\<close>: the new counters and the tagged result.\<close>

definition classifyRun ::
  "HitResults \<Rightarrow> bool \<Rightarrow> HitResult \<Rightarrow> ('sp, 'hp, 'pp) subSet \<Rightarrow> ('sp, 'hp, 'pp) subSet \<times> HitResult" where
  "classifyRun K allClicked result sub =
     (let (sub1, result1) =
        (if result AND BaseHits K > 0 then
           (if currentKatu sub = 0 \<and> currentBad sub = 0 \<and> allClicked then
              (sub\<lparr>gekiCount := i64 (gekiCount sub + 1)\<rparr>, result OR GekiAddition K)
            else if currentBad sub = 0 \<and> allClicked then
              (sub\<lparr>katuCount := i64 (katuCount sub + 1)\<rparr>, result OR KatuAddition K)
            else (sub, result OR MuAddition K))
         else (sub, result))
      in (sub1\<lparr>currentBad := 0, currentKatu := 0\<rparr>, result1))"

definition closeRun ::
  "HitResults \<Rightarrow> IHitObject list \<Rightarrow> HitObject list \<Rightarrow> int \<Rightarrow> HitResult \<Rightarrow> ('sp, 'hp, 'pp) subSet \<Rightarrow>
   (('sp, 'hp, 'pp) subSet \<times> HitResult) option" where
  "closeRun K hs procd num result sub =
     (case closesRun K hs num result of
        None \<Rightarrow> None
      | Some False \<Rightarrow> Some (sub, result)
      | Some True \<Rightarrow>
         (case allClickedOf hs procd (cursor (player sub)) num of
            None \<Rightarrow> None
          | Some allClicked \<Rightarrow> Some (classifyRun K allClicked result sub)))"

subsection \<open>SendResult\<close>

text \<open>
  The part of \<^verbatim>\<open>SendResult\<close> between the early return and the recomputation of the
  performance points: score processor, counting block, maximum combo, accuracy, grade.
\<close>

definition aggregate ::
  "('sp, 'hp, 'pp, 'st) Externals \<Rightarrow> HitResult \<Rightarrow> ComboResult \<Rightarrow> ('sp, 'hp, 'pp) subSet \<Rightarrow> ('sp, 'hp, 'pp) subSet" where
  "aggregate X result comboResult sub =
     (let sub1 = sub\<lparr>scoreProcessor := spAddResult X result comboResult (scoreProcessor sub)\<rparr>;
          sub2 = countResult (results X) result sub1;
          sub3 = sub2\<lparr>maxCombo := MaxI64 (spGetCombo X (scoreProcessor sub2)) (maxCombo sub2)\<rparr>;
          sub4 = updateAccuracy sub3
      in updateGrade (results X) sub4)"

text \<open>The recomputation of the performance points, with its two index expressions.\<close>

definition updatePP ::
  "('sp, 'hp, 'pp, 'st) Externals \<Rightarrow> ('sp, 'hp, 'pp, 'st) OsuRuleSet \<Rightarrow> ('sp, 'hp, 'pp) subSet \<Rightarrow>
   ('sp, 'hp, 'pp) subSet option" where
  "updatePP X rs sub =
     (let K = results X;
          index = MaxI64 0 (i64 (numObjects sub - 1));
          diffs = oppDiffs rs (Mods (player sub) \<inter> DifficultyAdjustMask X)
      in if \<not> index < int (length (mapStats rs)) then None
         else if \<not> index < int (length diffs) then None
         else Some (sub\<lparr>ppv2 := PPv2x X (diffs ! nat index) (experimentalPP rs) (mapStats rs ! nat index)
                       (maxCombo sub) (hits sub (Hit300 K)) (hits sub (Hit100 K)) (hits sub (Hit50 K))
                       (hits sub (Miss K)) (Mods (player sub)) (ppv2 sub)\<rparr>))"

definition hitEvent ::
  "('sp, 'hp, 'pp, 'st) Externals \<Rightarrow> Cursor \<Rightarrow> int \<Rightarrow> int \<Rightarrow> real \<Rightarrow> real \<Rightarrow> HitResult \<Rightarrow> ComboResult \<Rightarrow>
   ('sp, 'hp, 'pp) subSet \<Rightarrow> 'pp Event" where
  "hitEvent X c time num x y result comboResult sub =
     HitEvent c time num (x, y) result comboResult (ppv2 sub) (spGetScore X (scoreProcessor sub))"

definition SendResult ::
  "('sp, 'hp, 'pp, 'st) Externals \<Rightarrow> ('sp, 'hp, 'pp, 'st) OsuRuleSet \<Rightarrow> int \<Rightarrow> Cursor \<Rightarrow> HitObject \<Rightarrow>
   real \<Rightarrow> real \<Rightarrow> HitResult \<Rightarrow> ComboResult \<Rightarrow>
   (('sp, 'hp, 'pp, 'st) OsuRuleSet \<times> 'pp Event list) option" where
  "SendResult X rs time c src x y result comboResult =
     (let K = results X; num = number src in
      if result = Ignore K \<or> result = PositionalMiss K then
        (if result = PositionalMiss K \<and> hitListener rs then
           (case cursors rs c of
              None \<Rightarrow> None
            | Some sub \<Rightarrow>
                if \<not> Active (Mods (player sub)) {Relax}
                then Some (rs, [hitEvent X c time num x y result comboResult sub])
                else Some (rs, []))
         else Some (rs, []))
      else
        (case cursors rs c of
           None \<Rightarrow> None
         | Some sub0 \<Rightarrow>
            (let result1 = spModifyResult X result src (scoreProcessor sub0) in
             case updatePP X rs (aggregate X result1 comboResult sub0) of
               None \<Rightarrow> None
             | Some sub1 \<Rightarrow>
                (case closeRun K (HitObjects (beatMap rs)) (processed rs) num result1 (countRun K result1 sub1) of
                   None \<Rightarrow> None
                 | Some (sub2, result2) \<Rightarrow>
                    (let (h, signal) = hpAddResult X result2 (hp sub2);
                         rs1 = rs\<lparr>cursors := (cursors rs)(c \<mapsto> sub2\<lparr>hp := h\<rparr>)\<rparr>
                     in case (if signal then failInternal X rs1 (player sub2) else Some (rs1, [])) of
                          None \<Rightarrow> None
                        | Some (rs2, evs) \<Rightarrow>
                            Some (rs2, evs @ (if hitListener rs
                                              then [hitEvent X c time num x y result2 comboResult sub2]
                                              else [])))))))"

section \<open>The frame protocol\<close>

subsection \<open>Update\<close>

text \<open>
  \<^verbatim>\<open>g.UpdatePost(time)\<close> is a method of the target types, which are not among the sources:
  the parameter \<open>updatePost\<close> gives its answer and the target as the call leaves it.
  First loop of \<^verbatim>\<open>Update\<close>: the targets that are done leave \<open>processed\<close>, each reported to
  the end listener.
\<close>

fun retire ::
  "(int \<Rightarrow> HitObject \<Rightarrow> bool \<times> HitObject) \<Rightarrow> bool \<Rightarrow> int \<Rightarrow> HitObject list \<Rightarrow> HitObject list \<times> 'pp Event list" where
  "retire updatePost el time [] = ([], [])"
| "retire updatePost el time (g # gs) =
     (let (isDone, g1) = updatePost time g;
          (rest, evs) = retire updatePost el time gs
      in if isDone then (rest, (if el then [EndEvent time (number g1)] else []) @ evs)
         else (g1 # rest, evs))"

text \<open>Second loop: the head of the queue moves to \<open>processed\<close> until a fade time lies ahead.\<close>

fun activate :: "int \<Rightarrow> HitObject list \<Rightarrow> HitObject list \<Rightarrow> HitObject list \<times> HitObject list" where
  "activate time [] procd = ([], procd)"
| "activate time (g # q) procd =
     (if fadeTime g > time then (g # q, procd) else activate time q (procd @ [g]))"

text \<open>
  Third loop, \<^verbatim>\<open>for _, subSet := range set.cursors\<close>. Go leaves the iteration order of a
  map unspecified: the order is the parameter \<open>order\<close>, a list of the keys. A key that
  is not in the map is passed over.
\<close>

definition hpUpdateFor ::
  "('sp, 'hp, 'pp, 'st) Externals \<Rightarrow> int \<Rightarrow> Cursor \<Rightarrow> ('sp, 'hp, 'pp, 'st) OsuRuleSet \<Rightarrow>
   (('sp, 'hp, 'pp, 'st) OsuRuleSet \<times> 'pp Event list) option" where
  "hpUpdateFor X time c rs =
     (case cursors rs c of
        None \<Rightarrow> Some (rs, [])
      | Some sub \<Rightarrow>
         (let (h, signal) = hpUpdate X time (hp sub);
              rs1 = rs\<lparr>cursors := (cursors rs)(c \<mapsto> sub\<lparr>hp := h\<rparr>)\<rparr>
          in if signal then failInternal X rs1 (player sub) else Some (rs1, [])))"

fun hpLoop ::
  "('sp, 'hp, 'pp, 'st) Externals \<Rightarrow> int \<Rightarrow> Cursor list \<Rightarrow> ('sp, 'hp, 'pp, 'st) OsuRuleSet \<Rightarrow>
   (('sp, 'hp, 'pp, 'st) OsuRuleSet \<times> 'pp Event list) option" where
  "hpLoop X time [] rs = Some (rs, [])"
| "hpLoop X time (c # cs) rs =
     (case hpUpdateFor X time c rs of
        None \<Rightarrow> None
      | Some (rs1, evs) \<Rightarrow>
         (case hpLoop X time cs rs1 of
            None \<Rightarrow> None
          | Some (rs2, evs') \<Rightarrow> Some (rs2, evs @ evs')))"

text \<open>
  \<^verbatim>\<open>Update\<close>. The table printed at the end of the map goes to the log only; what remains
  of that block is the flag \<open>ended\<close>.
\<close>

definition Update ::
  "('sp, 'hp, 'pp, 'st) Externals \<Rightarrow> (int \<Rightarrow> HitObject \<Rightarrow> bool \<times> HitObject) \<Rightarrow> Cursor list \<Rightarrow>
   ('sp, 'hp, 'pp, 'st) OsuRuleSet \<Rightarrow> int \<Rightarrow> (('sp, 'hp, 'pp, 'st) OsuRuleSet \<times> 'pp Event list) option" where
  "Update X updatePost order rs time =
     (let (procd1, evs1) = retire updatePost (endListener rs) time (processed rs);
          (q2, procd2) = activate time (queue rs) procd1;
          rs1 = rs\<lparr>queue := q2, processed := procd2\<rparr>
      in case hpLoop X time order rs1 of
           None \<Rightarrow> None
         | Some (rs2, evs2) \<Rightarrow>
             Some (if queue rs2 = [] \<and> processed rs2 = [] \<and> \<not> ended rs2 then rs2\<lparr>ended := True\<rparr> else rs2,
                   evs1 @ evs2))"

subsection \<open>The three passes of a player\<close>

text \<open>
  The methods \<^verbatim>\<open>UpdateClickFor\<close>, \<^verbatim>\<open>UpdateFor\<close> and \<^verbatim>\<open>UpdatePostFor\<close> of the target types
  call back into the ruleset, so each is a parameter that takes the position of the target
  in \<open>processed\<close> and the ruleset and returns the ruleset as the call leaves it. Every pass
  also returns the positions it has offered to a target method, in order, each with the
  target as it was when the method was called.

  The passes re-read \<^verbatim>\<open>len(set.processed)\<close> and \<^verbatim>\<open>set.processed[i]\<close> at every step; the model
  does so too, for at most as many steps as \<open>processed\<close> was long when the pass began.
\<close>

record ('sp, 'hp, 'pp, 'st) Targets =
  tUpdateFor :: "nat \<Rightarrow> Cursor \<Rightarrow> int \<Rightarrow> bool \<Rightarrow> ('sp, 'hp, 'pp, 'st) OsuRuleSet \<Rightarrow>
                 (('sp, 'hp, 'pp, 'st) OsuRuleSet \<times> 'pp Event list) option"
  tUpdateClickFor :: "nat \<Rightarrow> Cursor \<Rightarrow> int \<Rightarrow> ('sp, 'hp, 'pp, 'st) OsuRuleSet \<Rightarrow>
                 (('sp, 'hp, 'pp, 'st) OsuRuleSet \<times> 'pp Event list) option"
  tUpdatePostFor :: "nat \<Rightarrow> Cursor \<Rightarrow> int \<Rightarrow> ('sp, 'hp, 'pp, 'st) OsuRuleSet \<Rightarrow>
                 (('sp, 'hp, 'pp, 'st) OsuRuleSet \<times> 'pp Event list) option"

record CursorInput =
  IsReplayFrame :: bool
  IsPlayer :: bool
  LeftButton :: bool
  RightButton :: bool

text \<open>The button bookkeeping of \<^verbatim>\<open>UpdateClickFor\<close> before its loop, and the one after it.\<close>

definition clickEdges :: "CursorInput \<Rightarrow> difficultyPlayer \<Rightarrow> difficultyPlayer" where
  "clickEdges cu pl0 =
     (let pl = pl0\<lparr>alreadyStolen := False\<rparr> in
      if IsReplayFrame cu \<or> IsPlayer cu then
        (let pl1 = pl\<lparr>leftCond := (\<not> bLeft (buttons pl) \<and> LeftButton cu),
                      rightCond := (\<not> bRight (buttons pl) \<and> RightButton cu)\<rparr>;
             pl2 = pl1\<lparr>leftCondE := leftCond pl1, rightCondE := rightCond pl1\<rparr>
         in if bLeft (buttons pl2) \<noteq> LeftButton cu \<or> bRight (buttons pl2) \<noteq> RightButton cu then
              pl2\<lparr>gameDownState := (LeftButton cu \<or> RightButton cu),
                  lastButton2 := lastButton pl2,
                  lastButton := mouseDownButton pl2,
                  mouseDownButton := (if LeftButton cu then {Left} else {}) \<union> (if RightButton cu then {Right} else {})\<rparr>
            else pl2)
      else pl)"

definition storeButtons :: "CursorInput \<Rightarrow> difficultyPlayer \<Rightarrow> difficultyPlayer" where
  "storeButtons cu pl =
     (if IsReplayFrame cu \<or> IsPlayer cu
      then pl\<lparr>buttons := \<lparr>bLeft = LeftButton cu, bRight = RightButton cu\<rparr>\<rparr>
      else pl)"

fun clickLoop ::
  "('sp, 'hp, 'pp, 'st) Targets \<Rightarrow> Cursor \<Rightarrow> int \<Rightarrow> nat \<Rightarrow> nat \<Rightarrow> ('sp, 'hp, 'pp, 'st) OsuRuleSet \<Rightarrow>
   (('sp, 'hp, 'pp, 'st) OsuRuleSet \<times> 'pp Event list \<times> (nat \<times> HitObject) list) option" where
  "clickLoop T c time 0 i rs = Some (rs, [], [])"
| "clickLoop T c time (Suc k) i rs =
     (if i < length (processed rs) then
        (case tUpdateClickFor T i c time rs of
           None \<Rightarrow> None
         | Some (rs1, evs) \<Rightarrow>
            (case clickLoop T c time k (Suc i) rs1 of
               None \<Rightarrow> None
             | Some (rs2, evs', offered) \<Rightarrow> Some (rs2, evs @ evs', (i, processed rs ! i) # offered)))
      else Some (rs, [], []))"

definition UpdateClickFor ::
  "('sp, 'hp, 'pp, 'st) Targets \<Rightarrow> ('sp, 'hp, 'pp, 'st) OsuRuleSet \<Rightarrow> CursorInput \<Rightarrow> Cursor \<Rightarrow> int \<Rightarrow>
   (('sp, 'hp, 'pp, 'st) OsuRuleSet \<times> 'pp Event list \<times> (nat \<times> HitObject) list) option" where
  "UpdateClickFor T rs cu c time =
     (case cursors rs c of
        None \<Rightarrow> None
      | Some sub \<Rightarrow>
         (let rs1 = rs\<lparr>cursors := (cursors rs)(c \<mapsto> sub\<lparr>player := clickEdges cu (player sub)\<rparr>)\<rparr>
          in case clickLoop T c time (length (processed rs1)) 0 rs1 of
               None \<Rightarrow> None
             | Some (rs2, evs, offered) \<Rightarrow>
                (case cursors rs2 c of
                   None \<Rightarrow> None
                 | Some sub2 \<Rightarrow>
                     Some (rs2\<lparr>cursors := (cursors rs2)(c \<mapsto> sub2\<lparr>player := storeButtons cu (player sub2)\<rparr>)\<rparr>,
                           evs, offered))))"

text \<open>
  The loop of \<^verbatim>\<open>UpdateNormalFor\<close> with its local \<^verbatim>\<open>wasSliderAlready\<close>. A slider met while the
  flag is set is passed over (\<^verbatim>\<open>continue\<close>); a slider that is not hit sets the flag
  before its own \<^verbatim>\<open>UpdateFor\<close> runs.
\<close>

fun normalLoop ::
  "('sp, 'hp, 'pp, 'st) Targets \<Rightarrow> Cursor \<Rightarrow> int \<Rightarrow> bool \<Rightarrow> nat \<Rightarrow> nat \<Rightarrow> bool \<Rightarrow> ('sp, 'hp, 'pp, 'st) OsuRuleSet \<Rightarrow>
   (('sp, 'hp, 'pp, 'st) OsuRuleSet \<times> 'pp Event list \<times> (nat \<times> HitObject) list) option" where
  "normalLoop T c time ahead 0 i wasSliderAlready rs = Some (rs, [], [])"
| "normalLoop T c time ahead (Suc k) i wasSliderAlready rs =
     (if i < length (processed rs) then
        (let g = processed rs ! i in
         if kind g = Slider \<and> wasSliderAlready then normalLoop T c time ahead k (Suc i) wasSliderAlready rs
         else
           (let was = (if kind g = Slider \<and> \<not> IsHit g c then True else wasSliderAlready) in
            case tUpdateFor T i c time ahead rs of
              None \<Rightarrow> None
            | Some (rs1, evs) \<Rightarrow>
               (case normalLoop T c time ahead k (Suc i) was rs1 of
                  None \<Rightarrow> None
                | Some (rs2, evs', offered) \<Rightarrow> Some (rs2, evs @ evs', (i, g) # offered))))
      else Some (rs, [], []))"

definition UpdateNormalFor ::
  "('sp, 'hp, 'pp, 'st) Targets \<Rightarrow> ('sp, 'hp, 'pp, 'st) OsuRuleSet \<Rightarrow> Cursor \<Rightarrow> int \<Rightarrow> bool \<Rightarrow>
   (('sp, 'hp, 'pp, 'st) OsuRuleSet \<times> 'pp Event list \<times> (nat \<times> HitObject) list) option" where
  "UpdateNormalFor T rs c time processSliderEndsAhead =
     (case cursors rs c of
        None \<Rightarrow> None
      | Some sub \<Rightarrow> normalLoop T c time processSliderEndsAhead (length (processed rs)) 0 False rs)"

fun postLoop ::
  "('sp, 'hp, 'pp, 'st) Targets \<Rightarrow> Cursor \<Rightarrow> int \<Rightarrow> nat \<Rightarrow> nat \<Rightarrow> ('sp, 'hp, 'pp, 'st) OsuRuleSet \<Rightarrow>
   (('sp, 'hp, 'pp, 'st) OsuRuleSet \<times> 'pp Event list \<times> (nat \<times> HitObject) list) option" where
  "postLoop T c time 0 i rs = Some (rs, [], [])"
| "postLoop T c time (Suc k) i rs =
     (if i < length (processed rs) then
        (case tUpdatePostFor T i c time rs of
           None \<Rightarrow> None
         | Some (rs1, evs) \<Rightarrow>
            (case postLoop T c time k (Suc i) rs1 of
               None \<Rightarrow> None
             | Some (rs2, evs', offered) \<Rightarrow> Some (rs2, evs @ evs', (i, processed rs ! i) # offered)))
      else Some (rs, [], []))"

definition UpdatePostFor ::
  "('sp, 'hp, 'pp, 'st) Targets \<Rightarrow> ('sp, 'hp, 'pp, 'st) OsuRuleSet \<Rightarrow> Cursor \<Rightarrow> int \<Rightarrow>
   (('sp, 'hp, 'pp, 'st) OsuRuleSet \<times> 'pp Event list \<times> (nat \<times> HitObject) list) option" where
  "UpdatePostFor T rs c time =
     (case cursors rs c of
        None \<Rightarrow> None
      | Some sub \<Rightarrow> postLoop T c time (length (processed rs)) 0 rs)"

section \<open>Queries\<close>

definition GetResults ::
  "('sp, 'hp, 'pp, 'st) Externals \<Rightarrow> ('sp, 'hp, 'pp, 'st) OsuRuleSet \<Rightarrow> Cursor \<Rightarrow> (real \<times> int \<times> int \<times> Grade) option" where
  "GetResults X rs c =
     (case cursors rs c of
        None \<Rightarrow> None
      | Some sub \<Rightarrow> Some (accuracy sub, maxCombo sub, spGetScore X (scoreProcessor sub), grade sub))"

definition GetHits ::
  "('sp, 'hp, 'pp, 'st) Externals \<Rightarrow> ('sp, 'hp, 'pp, 'st) OsuRuleSet \<Rightarrow> Cursor \<Rightarrow>
   (int \<times> int \<times> int \<times> int \<times> int \<times> int) option" where
  "GetHits X rs c =
     (case cursors rs c of
        None \<Rightarrow> None
      | Some sub \<Rightarrow>
          Some (hits sub (Hit300 (results X)), hits sub (Hit100 (results X)), hits sub (Hit50 (results X)),
                hits sub (Miss (results X)), gekiCount sub, katuCount sub))"

text \<open>
  \<^verbatim>\<open>GetHP\<close> divides by \<^verbatim>\<open>MaxHp\<close>, a positive constant of the health processor's file.
\<close>

definition GetHP ::
  "('sp, 'hp, 'pp, 'st) Externals \<Rightarrow> ('sp, 'hp, 'pp, 'st) OsuRuleSet \<Rightarrow> Cursor \<Rightarrow> real option" where
  "GetHP X rs c =
     (case cursors rs c of
        None \<Rightarrow> None
      | Some sub \<Rightarrow> Some (fl64 (hpHealth X (hp sub) / MaxHp X)))"

text \<open>\<^verbatim>\<open>IsPerfect\<close> reads \<^verbatim>\<open>mapStats[numObjects-1]\<close>; the index panics out of range.\<close>

definition IsPerfect :: "('sp, 'hp, 'pp, 'st) OsuRuleSet \<Rightarrow> Cursor \<Rightarrow> bool option" where
  "IsPerfect rs c =
     (case cursors rs c of
        None \<Rightarrow> None
      | Some sub \<Rightarrow>
         (let i = i64 (numObjects sub - 1) in
          if 0 \<le> i \<and> i < int (length (mapStats rs))
          then Some (maxCombo sub = mapMaxCombo (mapStats rs ! nat i))
          else None))"

section \<open>Runs of the ruleset\<close>

text \<open>
  A call of one of the two mutating entry points that the judgement path goes through.
  \<open>step\<close> performs one call; the iteration order that the Go runtime picks for the map
  loop of \<^verbatim>\<open>Update\<close> comes with the call. \<open>drive\<close> performs a list of calls and returns the
  ruleset after each of them.
\<close>

datatype Call =
    SendResultCall int Cursor HitObject real real HitResult ComboResult
  | UpdateCall int

fun step ::
  "('sp, 'hp, 'pp, 'st) Externals \<Rightarrow> (int \<Rightarrow> HitObject \<Rightarrow> bool \<times> HitObject) \<Rightarrow> Cursor list \<Rightarrow>
   ('sp, 'hp, 'pp, 'st) OsuRuleSet \<Rightarrow> Call \<Rightarrow> (('sp, 'hp, 'pp, 'st) OsuRuleSet \<times> 'pp Event list) option" where
  "step X updatePost order rs (SendResultCall time c src x y result comboResult) =
     SendResult X rs time c src x y result comboResult"
| "step X updatePost order rs (UpdateCall time) = Update X updatePost order rs time"

fun drive ::
  "('sp, 'hp, 'pp, 'st) Externals \<Rightarrow> (int \<Rightarrow> HitObject \<Rightarrow> bool \<times> HitObject) \<Rightarrow>
   ('sp, 'hp, 'pp, 'st) OsuRuleSet \<Rightarrow> (Call \<times> Cursor list) list \<Rightarrow> ('sp, 'hp, 'pp, 'st) OsuRuleSet list option" where
  "drive X updatePost rs [] = Some []"
| "drive X updatePost rs ((call, order) # rest) =
     (case step X updatePost order rs call of
        None \<Rightarrow> None
      | Some (rs1, evs) \<Rightarrow>
         (case drive X updatePost rs1 rest of
            None \<Rightarrow> None
          | Some trajectory \<Rightarrow> Some (rs1 # trajectory)))"

section \<open>Notions used in the statements\<close>

definition isInt64 :: "int \<Rightarrow> bool" where
  "isInt64 x = (- 9223372036854775808 \<le> x \<and> x < 9223372036854775808)"

subsection \<open>For the resolver\<close>

definition numbersValid :: "IHitObject list \<Rightarrow> HitObject list \<Rightarrow> bool" where
  "numbersValid hs gs = (\<forall>g \<in> set gs. 0 \<le> number g \<and> number g < int (length hs))"

text \<open>
  A target is stale for a candidate when its end time plus 3 ms, the sum rounded to
  \<^verbatim>\<open>float64\<close>, is before the candidate's start time. The click is out of the window when the
  distance between its time and the candidate's start time, truncated to whole ms, is at
  least the hittable range, which under Relax2 is 200 less.
\<close>

definition staleFor :: "IHitObject list \<Rightarrow> HitObject \<Rightarrow> HitObject \<Rightarrow> bool" where
  "staleFor hs g object =
     (fl64 (EndTime (hs ! nat (number g)) + 3) < StartTime (hs ! nat (number object)))"

definition outOfWindow :: "real \<Rightarrow> IHitObject list \<Rightarrow> int \<Rightarrow> HitObject \<Rightarrow> difficultyPlayer \<Rightarrow> bool" where
  "outOfWindow hittableRange hs time object pl =
     (\<bar>fl64 (real_of_int (i64 (time - truncR (StartTime (hs ! nat (number object))))))\<bar>
        \<ge> (if Relax2 \<in> Mods pl then fl64 (hittableRange - 200) else hittableRange))"

definition stackSuppressed :: "IHitObject list \<Rightarrow> HitObject list \<Rightarrow> HitObject \<Rightarrow> difficultyPlayer \<Rightarrow> bool" where
  "stackSuppressed hs procd object pl =
     (kind object = Circle \<and>
      (\<exists>i. 0 < i \<and> i < length procd \<and> ref (procd ! i) = ref object \<and>
           (\<forall>j. i < j \<and> j < length procd \<longrightarrow> ref (procd ! j) \<noteq> ref object) \<and>
           StackIndex (hs ! nat (number (procd ! (i - 1)))) (Mods pl) > 0 \<and>
           \<not> IsHit (procd ! (i - 1)) (cursor pl)))"

text \<open>
  The scan of the active set as section 4.3 of the specification words it: it goes through
  the targets before the candidate, and the first unresolved one ends it, with
  \<^verbatim>\<open>Shake\<close> when that target is stale and without it when it is not.
\<close>

fun specScan :: "IHitObject list \<Rightarrow> HitObject \<Rightarrow> difficultyPlayer \<Rightarrow> HitObject list \<Rightarrow> bool" where
  "specScan hs object pl [] = False"
| "specScan hs object pl (g # gs) =
     (if number g = number object then False
      else if \<not> IsHit g (cursor pl) then staleFor hs g object
      else specScan hs object pl gs)"

subsection \<open>For the grade\<close>

text \<open>The grade as section 4.4 of the specification words it, from the hit counts.\<close>

definition specGrade :: "int \<Rightarrow> int \<Rightarrow> int \<Rightarrow> int \<Rightarrow> bool \<Rightarrow> Grade" where
  "specGrade n300 n50 nMiss numCounted visibilityReduced =
     (let ratio = real_of_int n300 / real_of_int numCounted in
      if n300 = numCounted then (if visibilityReduced then SSH else SS)
      else if ratio > 0.9 \<and> real_of_int n50 / real_of_int numCounted < 0.01 \<and> nMiss = 0
        then (if visibilityReduced then SH else S)
      else if (ratio > 0.8 \<and> nMiss = 0) \<or> ratio > 0.9 then A
      else if (ratio > 0.7 \<and> nMiss = 0) \<or> ratio > 0.8 then B
      else if ratio > 0.6 then C
      else D)"

subsection \<open>For the combo runs\<close>







subsection \<open>For the prefix aggregates\<close>

definition comboOf :: "IHitObject \<Rightarrow> int" where
  "comboOf ob = (if objKind ob = Slider then int (ScorePoints ob) + 1 else 1)"

definition comboUpTo :: "IHitObject list \<Rightarrow> nat \<Rightarrow> int" where
  "comboUpTo hs n = sum_list (map comboOf (take n hs))"

subsection \<open>For the passes\<close>

definition unhitSlider :: "Cursor \<Rightarrow> nat \<times> HitObject \<Rightarrow> bool" where
  "unhitSlider c e = (kind (snd e) = Slider \<and> \<not> IsHit (snd e) c)"

subsection \<open>For the runs\<close>

definition playersKeyed :: "('sp, 'hp, 'pp, 'st) OsuRuleSet \<Rightarrow> bool" where
  "playersKeyed rs = (\<forall>c sub. cursors rs c = Some sub \<longrightarrow> cursor (player sub) = c)"

definition sameKeys :: "Cursor list \<Rightarrow> Cursor list \<Rightarrow> bool" where
  "sameKeys xs ys = (distinct xs \<and> distinct ys \<and> set xs = set ys)"

subsection \<open>For failing\<close>

text \<open>\<open>n\<close> fail signals in a row for one player, with the listener calls they make.\<close>

fun failSignals ::
  "('sp, 'hp, 'pp, 'st) Externals \<Rightarrow> ('sp, 'hp, 'pp, 'st) OsuRuleSet \<Rightarrow> difficultyPlayer \<Rightarrow> nat \<Rightarrow>
   (('sp, 'hp, 'pp, 'st) OsuRuleSet \<times> 'pp Event list) option" where
  "failSignals X rs pl 0 = Some (rs, [])"
| "failSignals X rs pl (Suc n) =
     (case failInternal X rs pl of
        None \<Rightarrow> None
      | Some (rs1, evs) \<Rightarrow>
         (case failSignals X rs1 pl n of
            None \<Rightarrow> None
          | Some (rs2, evs') \<Rightarrow> Some (rs2, evs @ evs')))"

section \<open>Notions used in the proofs\<close>


text \<open>The numbers that \<open>fl64\<close> leaves as they are.\<close>

definition isFloat64 :: "real \<Rightarrow> bool" where
  "isFloat64 f = (\<exists>m e. \<bar>m\<bar> \<le> 9007199254740992 \<and> f = of_int m * 2 powi e)"

text \<open>The entry that \<open>buildMapStats\<close> copies at its next step.\<close>

definition baseOf :: "MapTo list \<Rightarrow> MapTo" where
  "baseOf stats = (if stats \<noteq> [] then last stats else \<lparr>ncircles = 0, nsliders = 0, nobjects = 0, mapMaxCombo = 0\<rparr>)"

text \<open>
  The fields of a player's state that a fail signal and the health processor leave alone.
\<close>

definition scorePart ::
  "('sp, 'hp, 'pp) subSet \<Rightarrow>
   int \<times> real \<times> int \<times> int \<times> Grade \<times> (HitResult \<Rightarrow> int) \<times> difficultyPlayer \<times> int \<times> int \<times> int \<times> int \<times> 'sp \<times> 'pp" where
  "scorePart sub =
     (rawScore sub, accuracy sub, maxCombo sub, numObjects sub, grade sub, hits sub, player sub,
      currentKatu sub, currentBad sub, gekiCount sub, katuCount sub, scoreProcessor sub, ppv2 sub)"

text \<open>What \<open>failInternal\<close> does to the state of the player it is called for.\<close>

definition failSub :: "('sp, 'hp, 'pp, 'st) Externals \<Rightarrow> ('sp, 'hp, 'pp) subSet \<Rightarrow> ('sp, 'hp, 'pp) subSet" where
  "failSub X sub =
     (if CheckModActive (player sub) ({NoFail} \<union> {Relax} \<union> {Relax2}) then sub
      else if recoveries sub > 0 then
        sub\<lparr>hp := hpIncrease X 160 False (hp sub), recoveries := i64 (recoveries sub - 1)\<rparr>
      else sub\<lparr>failed := True\<rparr>)"

text \<open>What one step of the health loop of \<open>Update\<close> does to the state of its player.\<close>

definition hpSub :: "('sp, 'hp, 'pp, 'st) Externals \<Rightarrow> int \<Rightarrow> ('sp, 'hp, 'pp) subSet \<Rightarrow> ('sp, 'hp, 'pp) subSet" where
  "hpSub X time sub =
     (if snd (hpUpdate X time (hp sub)) then failSub X (sub\<lparr>hp := fst (hpUpdate X time (hp sub))\<rparr>)
      else sub\<lparr>hp := fst (hpUpdate X time (hp sub))\<rparr>)"

definition isFailEvent :: "'pp Event \<Rightarrow> bool" where
  "isFailEvent e = (case e of FailEvent c \<Rightarrow> True | _ \<Rightarrow> False)"

text \<open>The invariant of a player's state behind the accuracy, for a map of \<open>L\<close> objects.\<close>

definition accInv :: "int \<Rightarrow> ('sp, 'hp, 'pp) subSet \<Rightarrow> bool" where
  "accInv L sub =
     (0 \<le> rawScore sub \<and> rawScore sub \<le> 300 * numObjects sub \<and> numObjects sub \<le> L \<and>
      accuracy sub = (if numObjects sub = 0 then 100
                      else fl64 (100 * real_of_int (rawScore sub) / real_of_int (numObjects sub * 300))))"

definition rsInv :: "int \<Rightarrow> ('sp, 'hp, 'pp, 'st) OsuRuleSet \<Rightarrow> bool" where
  "rsInv L rs = (int (length (mapStats rs)) = L \<and> (\<forall>c sub. cursors rs c = Some sub \<longrightarrow> accInv L sub))"

section \<open>Example values\<close>

text \<open>
  An instance of the external declarations, for evaluating the model: the outcome flags
  are distinct bits, the score processor counts the combo, the health processor holds a
  number and signals a fail at a miss and at every update from 5000 ms on.
\<close>

definition exResults :: HitResults where
  "exResults =
     \<lparr>Ignore = 1, PositionalMiss = 32768, Miss = 4, Hit50 = 8, Hit100 = 16, Hit300 = 32,
      BaseHits = 56, BaseHitsM = 60, GekiAddition = 16384, KatuAddition = 8192, MuAddition = 4096,
      ScoreValue = (\<lambda>r. if r = 8 then 50 else if r = 16 then 100 else if r = 32 then 300 else 0)\<rparr>"

definition exX :: "(int, real, unit, unit) Externals" where
  "exX =
     \<lparr>results = exResults,
      DifficultyAdjustMask = {Easy},
      UseLazerPP = False,
      newScoreV1Processor = 0,
      newScoreV2Processor = 0,
      spInit = (\<lambda>bm c m s. s),
      spAddResult = (\<lambda>r cr s. case cr of Increase \<Rightarrow> s + 1 | Hold \<Rightarrow> s | Reset \<Rightarrow> 0),
      spModifyResult = (\<lambda>r src s. r),
      spGetScore = (\<lambda>s. 0),
      spGetCombo = (\<lambda>s. s),
      NewHealthProcessor = (\<lambda>bm m b. 200),
      hpUpdate = (\<lambda>t h. if t \<ge> 5000 then (0, True) else (h, False)),
      hpAddResult = (\<lambda>r h. if r = 4 then (0, True) else (h, False)),
      hpIncrease = (\<lambda>a b h. min 200 (h + a)),
      hpHealth = (\<lambda>h. h),
      MaxHp = 200,
      CalculateStep = (\<lambda>hs m e. map (\<lambda>_. ()) hs),
      newPPv2 = (),
      PPv2x = (\<lambda>st e mapTo mc n300 n100 n50 nm m p. p),
      newObject = (\<lambda>i ob. \<lparr>ref = i, kind = objKind ob, number = int i, fadeTime = 0, IsHit = (\<lambda>_. False)\<rparr>)\<rparr>"

definition exT :: "(int, real, unit, unit) Targets" where
  "exT = \<lparr>tUpdateFor = (\<lambda>i c t a rs. Some (rs, [])),
          tUpdateClickFor = (\<lambda>i c t rs. Some (rs, [])),
          tUpdatePostFor = (\<lambda>i c t rs. Some (rs, []))\<rparr>"

definition exUpdatePost :: "int \<Rightarrow> HitObject \<Rightarrow> bool \<times> HitObject" where
  "exUpdatePost t g = (False, g)"

definition exObj :: "ObjKind \<Rightarrow> real \<Rightarrow> real \<Rightarrow> int \<Rightarrow> bool \<Rightarrow> IHitObject" where
  "exObj k s e st nc =
     \<lparr>objKind = k, StartTime = s, EndTime = e, StackIndex = (\<lambda>_. st), NewCombo = nc, ScorePoints = 0\<rparr>"

definition exTarget :: "ObjKind \<Rightarrow> nat \<Rightarrow> bool \<Rightarrow> HitObject" where
  "exTarget k n h = \<lparr>ref = n, kind = k, number = int n, fadeTime = 0, IsHit = (\<lambda>_. h)\<rparr>"

definition exPlayer :: difficultyPlayer where
  "exPlayer = newPlayer 0 {}"

text \<open>Two stacked circles, the lower one unresolved.\<close>

definition exStackMap :: "IHitObject list" where
  "exStackMap = [exObj Circle 1000 1000 1 True, exObj Circle 1200 1200 0 False]"

definition exStackActive :: "HitObject list" where
  "exStackActive = [exTarget Circle 0 False, exTarget Circle 1 False]"

text \<open>
  A long slider that is still running, a circle at 100 ms that is not yet judged, and the
  candidate, a slider that starts at 300 ms.
\<close>

definition exSkipMap :: "IHitObject list" where
  "exSkipMap = [exObj Slider 0 2000 0 True, exObj Circle 100 100 0 False, exObj Slider 300 1500 0 False]"

definition exSkipActive :: "HitObject list" where
  "exSkipActive = [exTarget Slider 0 False, exTarget Circle 1 False, exTarget Slider 2 False]"

text \<open>
  A slider that ends at the \<^verbatim>\<open>float64\<close> nearest to 0.1 ms, unresolved, and a circle that starts
  at the \<^verbatim>\<open>float64\<close> nearest to 3.1 ms.
\<close>

definition exRoundMap :: "IHitObject list" where
  "exRoundMap = [exObj Slider 0 (3602879701896397 / 36028797018963968) 0 True,
                 exObj Circle (6980579422424269 / 2251799813685248) (6980579422424269 / 2251799813685248) 0 False]"

definition exRoundActive :: "HitObject list" where
  "exRoundActive = [exTarget Slider 0 False, exTarget Circle 1 False]"

text \<open>
  A map of two circles in one combo, and a ruleset for one player on it as it is after
  construction, the registration of the three listeners and a first \<open>Update\<close> at time 0, which
  makes both circles active.
\<close>

definition exMap :: BeatMap where
  "exMap = \<lparr>HitObjects = [exObj Circle 1000 1000 0 True, exObj Circle 2000 2000 0 False], DiffMods = {}\<rparr>"

definition exCursors :: "CursorInfo list" where
  "exCursors = [\<lparr>cid = 0, OldSpinnerScoring = False\<rparr>]"

definition exSub :: "Modifier \<Rightarrow> (int, real, unit) subSet" where
  "exSub m = newSubSet exX exMap \<lparr>cid = 0, OldSpinnerScoring = False\<rparr> (newPlayer 0 m)"

definition exRuleset :: "Modifier \<Rightarrow> (int, real, unit, unit) OsuRuleSet" where
  "exRuleset m =
     \<lparr>beatMap = exMap, cursors = [0 \<mapsto> exSub m], ended = False,
      mapStats = buildMapStats (HitObjects exMap) [],
      oppDiffs = (\<lambda>_. [])(m \<inter> {Easy} := [(), ()]),
      queue = [], processed = initQueue exX 0 (HitObjects exMap),
      hitListener = True, endListener = True, failListener = True,
      experimentalPP = False\<rparr>"

text \<open>Three active targets for the passes: two sliders that are not hit, then a circle.\<close>

definition exSliderSet :: "(int, real, unit, unit) OsuRuleSet" where
  "exSliderSet =
     (exRuleset {})\<lparr>processed := [exTarget Slider 0 False, exTarget Slider 1 False, exTarget Circle 2 False]\<rparr>"

definition exClick :: CursorInput where
  "exClick = \<lparr>IsReplayFrame = True, IsPlayer = False, LeftButton = True, RightButton = False\<rparr>"

text \<open>Two players on the map of two circles, and three calls with two iteration orders.\<close>

definition exCursors2 :: "CursorInfo list" where
  "exCursors2 = [\<lparr>cid = 0, OldSpinnerScoring = False\<rparr>, \<lparr>cid = 1, OldSpinnerScoring = True\<rparr>]"

definition exCalls :: "Call list" where
  "exCalls = [UpdateCall 6000, SendResultCall 6001 1 (exTarget Circle 0 False) 0 0 16 Increase, UpdateCall 7000]"

text \<open>An update, a 100 on the first circle, and another update.\<close>

definition exCalls1 :: "(Call \<times> Cursor list) list" where
  "exCalls1 = [(UpdateCall 0, [0]), (SendResultCall 1000 0 (exTarget Circle 0 False) 0 0 16 Increase, []),
               (UpdateCall 1010, [0])]"




section \<open>Basic facts\<close>

subsection \<open>Rounding\<close>

lemma rne_cases:
  "(rne y = \<lfloor>y\<rfloor> \<and> y - of_int \<lfloor>y\<rfloor> \<le> 1/2) \<or> (rne y = \<lfloor>y\<rfloor> + 1 \<and> 1/2 \<le> y - of_int \<lfloor>y\<rfloor>)"
  by (auto simp: rne_def Let_def)

lemma rne_nearest: "\<bar>of_int (rne y) - y\<bar> \<le> \<bar>of_int j - y\<bar>"
proof -
  define F where "F = real_of_int \<lfloor>y\<rfloor>"
  have a: "F \<le> y" "y < F + 1" unfolding F_def by linarith+
  have "j \<le> \<lfloor>y\<rfloor> \<or> \<lfloor>y\<rfloor> + 1 \<le> j" by linarith
  then have "real_of_int j \<le> real_of_int \<lfloor>y\<rfloor> \<or> real_of_int (\<lfloor>y\<rfloor> + 1) \<le> real_of_int j"
    using of_int_le_iff by blast
  then have b: "real_of_int j \<le> F \<or> F + 1 \<le> real_of_int j" by (simp add: F_def)
  from rne_cases[of y] have "(real_of_int (rne y) = F \<and> y - F \<le> 1/2) \<or> (real_of_int (rne y) = F + 1 \<and> 1/2 \<le> y - F)"
    unfolding F_def by auto
  then show ?thesis using a b by (auto simp: abs_if)
qed

lemma expo_bounds:
  assumes "0 < a" shows "2 powi (expo a - 1) \<le> a \<and> a < 2 powi (expo a)"
proof (cases "1 \<le> a")
  case True
  let ?n = "\<lfloor>a\<rfloor>"
  have n: "0 < ?n" using True by linarith
  from bitlen_bounds[OF n] have b: "2 ^ nat (bitlen ?n - 1) \<le> ?n" "?n < 2 ^ nat (bitlen ?n)" by auto
  have k: "1 \<le> bitlen ?n" using n by (simp add: bitlen_ge_iff_power)
  have lo: "(2::real) ^ nat (bitlen ?n - 1) \<le> a" using b(1) by (simp add: le_floor_iff)
  have hi: "a < (2::real) ^ nat (bitlen ?n)" using b(2) by (simp add: floor_less_iff)
  show ?thesis using lo hi k True by (simp add: expo_def power_int_def)
next
  case False
  then have a1: "a < 1" by simp
  let ?m = "\<lfloor>1 / a\<rfloor>"
  let ?k = "bitlen ?m"
  have "1 < 1 / a" using a1 assms by simp
  then have m: "0 < ?m" by linarith
  from bitlen_bounds[OF m] have b: "2 ^ nat (?k - 1) \<le> ?m" "?m < 2 ^ nat ?k" by auto
  have k: "1 \<le> ?k" using m by (simp add: bitlen_ge_iff_power)
  have "(2::real) ^ nat (?k - 1) \<le> 1 / a" using b(1) by (simp add: le_floor_iff)
  then have lo: "a * 2 ^ nat (?k - 1) \<le> 1" using assms by (simp add: field_simps)
  have "1 / a < (2::real) ^ nat ?k" using b(2) by (simp add: floor_less_iff)
  then have hi: "1 < a * 2 ^ nat ?k" using assms by (simp add: field_simps)
  have q1: "2 powi (1 - ?k) = (1::real) / 2 ^ nat (?k - 1)" using k
    by (simp add: power_int_def field_simps)
  have q0: "2 powi (- ?k) = (1::real) / 2 ^ nat ?k" using k
    by (simp add: power_int_def field_simps)
  show ?thesis
  proof (cases "a * 2 ^ nat (?k - 1) = 1")
    case True
    then have e: "expo a = 2 - ?k" using False by (simp add: expo_def Let_def)
    have a: "a = 1 / 2 ^ nat (?k - 1)" using True by (simp add: field_simps)
    have "(2::real) powi (2 - ?k) = 2 powi (1 + (1 - ?k))" by (simp add: algebra_simps)
    also have "\<dots> = 2 * 2 powi (1 - ?k)" by (subst power_int_add) simp_all
    finally have q2: "2 powi (2 - ?k) = (2::real) / 2 ^ nat (?k - 1)" using q1 by simp
    have e1: "expo a - 1 = 1 - ?k" using e by simp
    have "(0::real) < 2 ^ nat (?k - 1)" by simp
    then have "(1::real) / 2 ^ nat (?k - 1) < 2 / 2 ^ nat (?k - 1)"
      by (simp add: divide_strict_right_mono)
    then have "a < 2 powi (2 - ?k)" using a q2 by simp
    moreover have "2 powi (1 - ?k) \<le> a" using a q1 by simp
    ultimately show ?thesis unfolding e e1 by simp
  next
    case ne: False
    then have e: "expo a = 1 - ?k" using False by (simp add: expo_def Let_def)
    have "a < 1 / 2 ^ nat (?k - 1)" using lo ne by (simp add: field_simps)
    moreover have "1 / 2 ^ nat ?k \<le> a" using hi by (simp add: field_simps)
    moreover have "expo a - 1 = - ?k" using e by simp
    ultimately show ?thesis using e q1 q0 by simp
  qed
qed

lemma scaled_bounds:
  assumes "0 < a"
  shows "4503599627370496 \<le> a * 2 powi (53 - expo a) \<and> a * 2 powi (53 - expo a) < 9007199254740992"
proof -
  from expo_bounds[OF assms] have b: "2 powi (expo a - 1) \<le> a" "a < 2 powi (expo a)" by auto
  have s: "(0::real) < 2 powi (53 - expo a)" by simp
  have p1: "(2::real) powi (expo a - 1) * 2 powi (53 - expo a) = 2 powi 52"
    by (subst power_int_add[symmetric]) simp_all
  have p2: "(2::real) powi (expo a) * 2 powi (53 - expo a) = 2 powi 53"
    by (subst power_int_add[symmetric]) simp_all
  have "2 powi (expo a - 1) * 2 powi (53 - expo a) \<le> a * 2 powi (53 - expo a)"
    using b(1) s by (simp add: mult_right_mono)
  moreover have "a * 2 powi (53 - expo a) < 2 powi (expo a) * 2 powi (53 - expo a)"
    using b(2) s by (simp add: mult_strict_right_mono)
  moreover have "(2::real) powi 52 = 4503599627370496" "(2::real) powi 53 = 9007199254740992"
    by (simp_all add: power_int_def)
  ultimately show ?thesis using p1 p2 by simp
qed

lemma fl64_nearest:
  assumes "isFloat64 f"
  shows "\<bar>fl64 x - x\<bar> \<le> \<bar>f - x\<bar>"
proof (cases "x = 0")
  case True
  then show ?thesis by (simp add: fl64_def)
next
  case False
  define a where "a = \<bar>x\<bar>"
  define s :: real where "s = 2 powi (53 - expo a)"
  define y where "y = a * s"
  define r where "r = real_of_int (rne y)"
  have a: "0 < a" using False by (simp add: a_def)
  have s: "0 < s" by (simp add: s_def)
  from scaled_bounds[OF a] have y: "4503599627370496 \<le> y" "y < 9007199254740992"
    by (simp_all add: y_def s_def)
  from assms obtain m e where m: "\<bar>m\<bar> \<le> 9007199254740992" and f: "f = of_int m * 2 powi e"
    by (auto simp: isFloat64_def)
  define g where "g = sgn x * f"
  have sg: "sgn x = 1 \<or> sgn x = -1" using False by (auto simp: sgn_if)
  have fx: "\<bar>f - x\<bar> = \<bar>g - a\<bar>" using sg by (auto simp: g_def a_def sgn_if split: if_splits)
  have flx: "fl64 x = sgn x * (r / s)"
    using False by (simp add: fl64_def Let_def a_def s_def y_def r_def)
  have "\<bar>fl64 x - x\<bar> = \<bar>r / s - a\<bar>" using sg by (auto simp: flx a_def sgn_if split: if_splits)
  also have "r / s - a = (r - y) / s" using s by (simp add: y_def field_simps)
  finally have l: "\<bar>fl64 x - x\<bar> = \<bar>r - y\<bar> / s" using s by (simp add: abs_divide)
  have "g - a = (g * s - y) / s" using s by (simp add: y_def field_simps)
  then have rr: "\<bar>f - x\<bar> = \<bar>g * s - y\<bar> / s" using fx s by (simp add: abs_divide)
  define m' where "m' = (if 0 < x then m else - m)"
  define t where "t = e + (53 - expo a)"
  have m': "\<bar>m'\<bar> \<le> 9007199254740992" using m by (simp add: m'_def)
  have g: "g = of_int m' * 2 powi e" using False by (simp add: g_def f m'_def sgn_if)
  have "(2::real) powi e * 2 powi (53 - expo a) = 2 powi t"
    unfolding t_def by (subst power_int_add) simp_all
  then have gs: "g * s = of_int m' * 2 powi t" by (simp add: g s_def)
  have "\<bar>r - y\<bar> \<le> \<bar>g * s - y\<bar>"
  proof (cases "0 \<le> t")
    case True
    then have "g * s = real_of_int (m' * 2 ^ nat t)" by (simp add: gs power_int_def)
    then show ?thesis using rne_nearest[of y "m' * 2 ^ nat t"] by (simp add: r_def)
  next
    case False
    then have "1 \<le> nat (- t)" by simp
    then have "(2::real) ^ 1 \<le> 2 ^ nat (- t)" by (intro power_increasing) simp_all
    then have p: "(2::real) \<le> 2 ^ nat (- t)" by simp
    have gs2: "g * s = of_int m' / 2 ^ nat (- t)" using False by (simp add: gs power_int_def field_simps)
    have "real_of_int m' \<le> 9007199254740992" using m' by linarith
    also have "\<dots> = 4503599627370496 * (2::real)" by simp
    also have "\<dots> \<le> 4503599627370496 * 2 ^ nat (- t)" using p by simp
    finally have "real_of_int m' / 2 ^ nat (- t) \<le> 4503599627370496" by (simp add: field_simps)
    then have le: "g * s \<le> 4503599627370496" by (simp add: gs2)
    have "\<bar>r - y\<bar> \<le> \<bar>real_of_int 4503599627370496 - y\<bar>"
      unfolding r_def by (rule rne_nearest)
    then show ?thesis using le y by simp
  qed
  then show ?thesis using l rr s by (simp add: divide_right_mono)
qed

lemma fl64_exact: "isFloat64 f \<Longrightarrow> fl64 f = f"
  using fl64_nearest[of f f] by simp

lemma fl64_between:
  assumes "isFloat64 lo" "isFloat64 hi" "lo \<le> x" "x \<le> hi"
  shows "lo \<le> fl64 x \<and> fl64 x \<le> hi"
  using fl64_nearest[OF assms(1), of x] fl64_nearest[OF assms(2), of x] assms(3,4) by linarith

lemma isFloat64_of_int: "\<bar>n\<bar> \<le> 9007199254740992 \<Longrightarrow> isFloat64 (of_int n)"
  unfolding isFloat64_def by (rule exI[of _ n], rule exI[of _ 0]) simp

lemma fl64_of_int: "\<bar>n\<bar> \<le> 9007199254740992 \<Longrightarrow> fl64 (of_int n) = of_int n"
  by (simp add: fl64_exact isFloat64_of_int)

lemma fl64_numeral:
  "numeral k \<le> (9007199254740992::int) \<Longrightarrow> fl64 (numeral k) = numeral k"
  using fl64_of_int[of "numeral k"] by simp

lemma fl64_neg_numeral:
  "numeral k \<le> (9007199254740992::int) \<Longrightarrow> fl64 (- numeral k) = - numeral k"
  using fl64_of_int[of "- numeral k"] by simp

lemma fl64_0: "fl64 0 = 0"
  by (simp add: fl64_def)

lemma fl64_1: "fl64 1 = 1"
  using fl64_of_int[of 1] by simp

subsection \<open>The comparisons of the grade test\<close>

text \<open>
  For up to \<open>10^13\<close> counted objects the comparisons of the grade test have in \<^verbatim>\<open>float64\<close>,
  with the conversions, the quotient and the constant rounded, the outcome that \<open>quotGt\<close>
  and \<open>quotLt\<close> compute.
\<close>

lemma fl64_le: "isFloat64 hi \<Longrightarrow> x \<le> hi \<Longrightarrow> fl64 x \<le> hi"
  using fl64_nearest[of hi x] by linarith

lemma fl64_ge: "isFloat64 lo \<Longrightarrow> lo \<le> x \<Longrightarrow> lo \<le> fl64 x"
  using fl64_nearest[of lo x] by linarith

lemma isFloat64_frac: "\<bar>m\<bar> \<le> 9007199254740992 \<Longrightarrow> isFloat64 (real_of_int m / 2 ^ k)"
  unfolding isFloat64_def
  by (rule exI[of _ m], rule exI[of _ "- int k"]) (simp add: power_int_minus field_simps)

lemma fl64_compare:
  assumes "isFloat64 lo" "isFloat64 hi" "fl64 t = mid" "lo < mid" "mid < hi" "lo < t" "t < hi"
    and "q = t \<or> q \<le> lo \<or> hi \<le> q"
  shows "(fl64 q > mid) = (q > t) \<and> (fl64 q < mid) = (q < t)"
proof -
  from assms(8) consider "q = t" | "q \<le> lo" | "hi \<le> q" by blast
  then show ?thesis
  proof cases
    case 1
    with assms(3) show ?thesis by simp
  next
    case 2
    from fl64_le[OF assms(1) 2] assms(4,6) 2 show ?thesis by auto
  next
    case 3
    from fl64_ge[OF assms(2) 3] assms(5,7) 3 show ?thesis by auto
  qed
qed

lemma quotient_gap:
  fixes a b n d B :: int
  assumes "0 < b" "b \<le> B" "0 < d"
  shows "real_of_int a / real_of_int b = real_of_int n / real_of_int d
       \<or> real_of_int a / real_of_int b \<le> real_of_int n / real_of_int d - 1 / real_of_int (d * B)
       \<or> real_of_int n / real_of_int d + 1 / real_of_int (d * B) \<le> real_of_int a / real_of_int b"
proof -
  have B: "0 < B" using assms by linarith
  have rb: "0 < real_of_int b" "0 < real_of_int d" "0 < real_of_int B" using assms B by simp_all
  have g: "1 / real_of_int (d * B) \<le> 1 / real_of_int (d * b)"
    using assms rb by (simp add: frac_le)
  consider "a * d = n * b" | "a * d \<le> n * b - 1" | "n * b + 1 \<le> a * d" by linarith
  then show ?thesis
  proof cases
    case 1
    then have "real_of_int a * real_of_int d = real_of_int n * real_of_int b"
      by (metis of_int_mult)
    then show ?thesis using rb by (simp add: field_simps)
  next
    case 2
    then have "real_of_int (a * d) \<le> real_of_int (n * b - 1)" using of_int_le_iff by blast
    then have "real_of_int a * real_of_int d \<le> real_of_int n * real_of_int b - 1" by simp
    then have "real_of_int a / real_of_int b \<le> real_of_int n / real_of_int d - 1 / real_of_int (d * b)"
      using rb by (simp add: field_simps)
    with g show ?thesis by linarith
  next
    case 3
    then have "real_of_int (n * b + 1) \<le> real_of_int (a * d)" using of_int_le_iff by blast
    then have "real_of_int n * real_of_int b + 1 \<le> real_of_int a * real_of_int d" by simp
    then have "(real_of_int n * real_of_int b + 1) / (real_of_int b * real_of_int d)
        \<le> (real_of_int a * real_of_int d) / (real_of_int b * real_of_int d)"
      using rb by (intro divide_right_mono) simp_all
    moreover have "(real_of_int n * real_of_int b + 1) / (real_of_int b * real_of_int d)
        = real_of_int n / real_of_int d + 1 / real_of_int (d * b)"
      using rb by (simp add: field_simps)
    moreover have "(real_of_int a * real_of_int d) / (real_of_int b * real_of_int d) = real_of_int a / real_of_int b"
      using rb by simp
    ultimately have "real_of_int n / real_of_int d + 1 / real_of_int (d * b) \<le> real_of_int a / real_of_int b"
      by simp
    with g show ?thesis by linarith
  qed
qed

lemma float64_compare_quotient:
  fixes a b n d :: int
  assumes b: "0 < b" "b \<le> 10000000000000" and a: "\<bar>a\<bar> \<le> 9007199254740992"
    and fl: "isFloat64 lo" "isFloat64 hi" "fl64 t = mid" "lo < mid" "mid < hi" "lo < t" "t < hi"
    and t: "t = real_of_int n / real_of_int d" "0 < d"
    and gap: "t - 1 / real_of_int (d * 10000000000000) \<le> lo" "hi \<le> t + 1 / real_of_int (d * 10000000000000)"
  shows "(fl64 (fl64 (real_of_int a) / fl64 (real_of_int b)) > fl64 t) = (real_of_int a / real_of_int b > t)
       \<and> (fl64 (fl64 (real_of_int a) / fl64 (real_of_int b)) < fl64 t) = (real_of_int a / real_of_int b < t)"
proof -
  have ea: "fl64 (real_of_int a) = real_of_int a" using a by (rule fl64_of_int)
  have "\<bar>b\<bar> \<le> 9007199254740992" using b by linarith
  then have eb: "fl64 (real_of_int b) = real_of_int b" by (rule fl64_of_int)
  from quotient_gap[OF b t(2), of a n] gap t(1)
  have "real_of_int a / real_of_int b = t \<or> real_of_int a / real_of_int b \<le> lo \<or> hi \<le> real_of_int a / real_of_int b"
    by linarith
  from fl64_compare[OF fl(1,2,3,4,5,6,7) this] show ?thesis unfolding ea eb fl(3) .
qed

lemma float64_compare_09:
  assumes "0 < b" "b \<le> 10000000000000" "\<bar>a\<bar> \<le> 9007199254740992"
  shows "(fl64 (fl64 (real_of_int a) / fl64 (real_of_int b)) > fl64 (9 / 10)) = (real_of_int a / real_of_int b > 9 / 10)
       \<and> (fl64 (fl64 (real_of_int a) / fl64 (real_of_int b)) < fl64 (9 / 10)) = (real_of_int a / real_of_int b < 9 / 10)"
proof -
  have f1: "isFloat64 (8106479329266892 / 9007199254740992)" using isFloat64_frac[of 8106479329266892 53] by simp
  have f2: "isFloat64 (8106479329266894 / 9007199254740992)" using isFloat64_frac[of 8106479329266894 53] by simp
  have m: "fl64 (9 / 10) = 8106479329266893 / 9007199254740992" by code_simp
  have o1: "(8106479329266892::real) / 9007199254740992 < 8106479329266893 / 9007199254740992" by simp
  have o2: "(8106479329266893::real) / 9007199254740992 < 8106479329266894 / 9007199254740992" by simp
  have o3: "(8106479329266892::real) / 9007199254740992 < 9 / 10" by simp
  have o4: "(9::real) / 10 < 8106479329266894 / 9007199254740992" by simp
  have t: "(9::real) / 10 = real_of_int 9 / real_of_int 10" by simp
  have d: "(0::int) < 10" by simp
  have g1: "(9::real) / 10 - 1 / real_of_int (10 * 10000000000000) \<le> 8106479329266892 / 9007199254740992" by simp
  have g2: "(8106479329266894::real) / 9007199254740992 \<le> 9 / 10 + 1 / real_of_int (10 * 10000000000000)" by simp
  show ?thesis by (rule float64_compare_quotient[OF assms f1 f2 m o1 o2 o3 o4 t d g1 g2])
qed

lemma float64_compare_08:
  assumes "0 < b" "b \<le> 10000000000000" "\<bar>a\<bar> \<le> 9007199254740992"
  shows "(fl64 (fl64 (real_of_int a) / fl64 (real_of_int b)) > fl64 (8 / 10)) = (real_of_int a / real_of_int b > 8 / 10)
       \<and> (fl64 (fl64 (real_of_int a) / fl64 (real_of_int b)) < fl64 (8 / 10)) = (real_of_int a / real_of_int b < 8 / 10)"
proof -
  have f1: "isFloat64 (7205759403792793 / 9007199254740992)" using isFloat64_frac[of 7205759403792793 53] by simp
  have f2: "isFloat64 (7205759403792795 / 9007199254740992)" using isFloat64_frac[of 7205759403792795 53] by simp
  have m: "fl64 (8 / 10) = 7205759403792794 / 9007199254740992" by code_simp
  have o1: "(7205759403792793::real) / 9007199254740992 < 7205759403792794 / 9007199254740992" by simp
  have o2: "(7205759403792794::real) / 9007199254740992 < 7205759403792795 / 9007199254740992" by simp
  have o3: "(7205759403792793::real) / 9007199254740992 < 8 / 10" by simp
  have o4: "(8::real) / 10 < 7205759403792795 / 9007199254740992" by simp
  have t: "(8::real) / 10 = real_of_int 8 / real_of_int 10" by simp
  have d: "(0::int) < 10" by simp
  have g1: "(8::real) / 10 - 1 / real_of_int (10 * 10000000000000) \<le> 7205759403792793 / 9007199254740992" by simp
  have g2: "(7205759403792795::real) / 9007199254740992 \<le> 8 / 10 + 1 / real_of_int (10 * 10000000000000)" by simp
  show ?thesis by (rule float64_compare_quotient[OF assms f1 f2 m o1 o2 o3 o4 t d g1 g2])
qed

lemma float64_compare_07:
  assumes "0 < b" "b \<le> 10000000000000" "\<bar>a\<bar> \<le> 9007199254740992"
  shows "(fl64 (fl64 (real_of_int a) / fl64 (real_of_int b)) > fl64 (7 / 10)) = (real_of_int a / real_of_int b > 7 / 10)
       \<and> (fl64 (fl64 (real_of_int a) / fl64 (real_of_int b)) < fl64 (7 / 10)) = (real_of_int a / real_of_int b < 7 / 10)"
proof -
  have f1: "isFloat64 (6305039478318693 / 9007199254740992)" using isFloat64_frac[of 6305039478318693 53] by simp
  have f2: "isFloat64 (6305039478318695 / 9007199254740992)" using isFloat64_frac[of 6305039478318695 53] by simp
  have m: "fl64 (7 / 10) = 6305039478318694 / 9007199254740992" by code_simp
  have o1: "(6305039478318693::real) / 9007199254740992 < 6305039478318694 / 9007199254740992" by simp
  have o2: "(6305039478318694::real) / 9007199254740992 < 6305039478318695 / 9007199254740992" by simp
  have o3: "(6305039478318693::real) / 9007199254740992 < 7 / 10" by simp
  have o4: "(7::real) / 10 < 6305039478318695 / 9007199254740992" by simp
  have t: "(7::real) / 10 = real_of_int 7 / real_of_int 10" by simp
  have d: "(0::int) < 10" by simp
  have g1: "(7::real) / 10 - 1 / real_of_int (10 * 10000000000000) \<le> 6305039478318693 / 9007199254740992" by simp
  have g2: "(6305039478318695::real) / 9007199254740992 \<le> 7 / 10 + 1 / real_of_int (10 * 10000000000000)" by simp
  show ?thesis by (rule float64_compare_quotient[OF assms f1 f2 m o1 o2 o3 o4 t d g1 g2])
qed

lemma float64_compare_06:
  assumes "0 < b" "b \<le> 10000000000000" "\<bar>a\<bar> \<le> 9007199254740992"
  shows "(fl64 (fl64 (real_of_int a) / fl64 (real_of_int b)) > fl64 (6 / 10)) = (real_of_int a / real_of_int b > 6 / 10)
       \<and> (fl64 (fl64 (real_of_int a) / fl64 (real_of_int b)) < fl64 (6 / 10)) = (real_of_int a / real_of_int b < 6 / 10)"
proof -
  have f1: "isFloat64 (5404319552844594 / 9007199254740992)" using isFloat64_frac[of 5404319552844594 53] by simp
  have f2: "isFloat64 (5404319552844596 / 9007199254740992)" using isFloat64_frac[of 5404319552844596 53] by simp
  have m: "fl64 (6 / 10) = 5404319552844595 / 9007199254740992" by code_simp
  have o1: "(5404319552844594::real) / 9007199254740992 < 5404319552844595 / 9007199254740992" by simp
  have o2: "(5404319552844595::real) / 9007199254740992 < 5404319552844596 / 9007199254740992" by simp
  have o3: "(5404319552844594::real) / 9007199254740992 < 6 / 10" by simp
  have o4: "(6::real) / 10 < 5404319552844596 / 9007199254740992" by simp
  have t: "(6::real) / 10 = real_of_int 6 / real_of_int 10" by simp
  have d: "(0::int) < 10" by simp
  have g1: "(6::real) / 10 - 1 / real_of_int (10 * 10000000000000) \<le> 5404319552844594 / 9007199254740992" by simp
  have g2: "(5404319552844596::real) / 9007199254740992 \<le> 6 / 10 + 1 / real_of_int (10 * 10000000000000)" by simp
  show ?thesis by (rule float64_compare_quotient[OF assms f1 f2 m o1 o2 o3 o4 t d g1 g2])
qed

lemma float64_compare_001:
  assumes "0 < b" "b \<le> 10000000000000" "\<bar>a\<bar> \<le> 9007199254740992"
  shows "(fl64 (fl64 (real_of_int a) / fl64 (real_of_int b)) > fl64 (1 / 100)) = (real_of_int a / real_of_int b > 1 / 100)
       \<and> (fl64 (fl64 (real_of_int a) / fl64 (real_of_int b)) < fl64 (1 / 100)) = (real_of_int a / real_of_int b < 1 / 100)"
proof -
  have f1: "isFloat64 (5764607523034234 / 576460752303423488)" using isFloat64_frac[of 5764607523034234 59] by simp
  have f2: "isFloat64 (5764607523034236 / 576460752303423488)" using isFloat64_frac[of 5764607523034236 59] by simp
  have m: "fl64 (1 / 100) = 5764607523034235 / 576460752303423488" by code_simp
  have o1: "(5764607523034234::real) / 576460752303423488 < 5764607523034235 / 576460752303423488" by simp
  have o2: "(5764607523034235::real) / 576460752303423488 < 5764607523034236 / 576460752303423488" by simp
  have o3: "(5764607523034234::real) / 576460752303423488 < 1 / 100" by simp
  have o4: "(1::real) / 100 < 5764607523034236 / 576460752303423488" by simp
  have t: "(1::real) / 100 = real_of_int 1 / real_of_int 100" by simp
  have d: "(0::int) < 100" by simp
  have g1: "(1::real) / 100 - 1 / real_of_int (100 * 10000000000000) \<le> 5764607523034234 / 576460752303423488" by simp
  have g2: "(5764607523034236::real) / 576460752303423488 \<le> 1 / 100 + 1 / real_of_int (100 * 10000000000000)" by simp
  show ?thesis by (rule float64_compare_quotient[OF assms f1 f2 m o1 o2 o3 o4 t d g1 g2])
qed

lemma quotGt_float64:
  assumes "0 < b" "b \<le> 10000000000000" "\<bar>a\<bar> \<le> 9007199254740992"
    and "t = 0.9 \<or> t = 0.8 \<or> t = 0.7 \<or> t = 0.6"
  shows "quotGt a b t = (fl64 (fl64 (real_of_int a) / fl64 (real_of_int b)) > fl64 t)"
proof -
  have q: "quotGt a b t = (real_of_int a / real_of_int b > t)" using assms(1) by (simp add: quotGt_def)
  from assms(4) consider (a) "t = 9 / 10" | (b) "t = 8 / 10" | (c) "t = 7 / 10" | (d) "t = 6 / 10" by blast
  then show ?thesis
  proof cases
    case a
    from q float64_compare_09[OF assms(1,2,3)] show ?thesis unfolding a by blast
  next
    case b
    from q float64_compare_08[OF assms(1,2,3)] show ?thesis unfolding b by blast
  next
    case c
    from q float64_compare_07[OF assms(1,2,3)] show ?thesis unfolding c by blast
  next
    case d
    from q float64_compare_06[OF assms(1,2,3)] show ?thesis unfolding d by blast
  qed
qed

lemma quotLt_float64:
  assumes "0 < b" "b \<le> 10000000000000" "\<bar>a\<bar> \<le> 9007199254740992"
  shows "quotLt a b 0.01 = (fl64 (fl64 (real_of_int a) / fl64 (real_of_int b)) < fl64 0.01)"
proof -
  have c: "(0.01::real) = 1 / 100" by simp
  have q: "quotLt a b (1 / 100) = (real_of_int a / real_of_int b < 1 / 100)"
    using assms(1) by (simp add: quotLt_def)
  from q float64_compare_001[OF assms] show ?thesis unfolding c by blast
qed

subsection \<open>Integers and the example ruleset\<close>

lemma i64_id: "isInt64 x \<Longrightarrow> i64 x = x"
  by (simp add: isInt64_def i64_def)

lemma exRuleset_constructed:
  "Option.bind (map_option (SetFailListener \<circ> SetEndListener \<circ> SetListener)
                  (NewOsuRuleset exX exMap exCursors [m]))
     (\<lambda>rs. map_option fst (Update exX exUpdatePost [0] rs 0)) = Some (exRuleset m)"
  by (simp add: NewOsuRuleset_def Update_def hpUpdateFor_def exUpdatePost_def exRuleset_def exSub_def
      exX_def exMap_def exCursors_def Let_def SetListener_def SetEndListener_def SetFailListener_def)

section \<open>The click-eligibility resolver: proofs\<close>

lemma findIndex_absent:
  "\<forall>g \<in> set gs. ref g \<noteq> r \<Longrightarrow> findIndex r gs k index = index"
  by (induction gs arbitrary: k index) auto

lemma findIndex_last:
  "i < length gs \<Longrightarrow> ref (gs ! i) = r \<Longrightarrow>
   (\<forall>j. i < j \<and> j < length gs \<longrightarrow> ref (gs ! j) \<noteq> r) \<Longrightarrow>
   findIndex r gs k index = int (k + i)"
proof (induction gs arbitrary: i k index)
  case Nil
  then show ?case by simp
next
  case (Cons g gs)
  show ?case
  proof (cases i)
    case 0
    have "\<forall>h \<in> set gs. ref h \<noteq> r"
    proof
      fix h assume "h \<in> set gs"
      then obtain j where "j < length gs" "gs ! j = h" by (auto simp: in_set_conv_nth)
      with Cons.prems(3) 0 show "ref h \<noteq> r"
        by (metis Suc_less_eq length_Cons nth_Cons_Suc zero_less_Suc)
    qed
    with Cons.prems 0 show ?thesis by (simp add: findIndex_absent)
  next
    case (Suc i')
    have "findIndex r gs (Suc k) (if ref g = r then int k else index) = int (Suc k + i')"
      using Cons.prems Suc by (intro Cons.IH) auto
    then show ?thesis using Suc by simp
  qed
qed

lemma findIndex_cases:
  "findIndex r gs k index = index \<and> (\<forall>g \<in> set gs. ref g \<noteq> r) \<or>
   (\<exists>i < length gs. findIndex r gs k index = int (k + i) \<and> ref (gs ! i) = r \<and>
       (\<forall>j. i < j \<and> j < length gs \<longrightarrow> ref (gs ! j) \<noteq> r))"
proof (cases "\<forall>g \<in> set gs. ref g \<noteq> r")
  case True
  then show ?thesis by (simp add: findIndex_absent)
next
  case False
  then have ex: "\<exists>i. i < length gs \<and> ref (gs ! i) = r" by (auto simp: in_set_conv_nth)
  define m where "m = (GREATEST i. i < length gs \<and> ref (gs ! i) = r)"
  have m: "m < length gs \<and> ref (gs ! m) = r"
    unfolding m_def using ex by (rule exE) (rule GreatestI_nat[where b = "length gs"], auto)
  have mx: "\<And>j. j < length gs \<and> ref (gs ! j) = r \<Longrightarrow> j \<le> m"
    unfolding m_def by (rule Greatest_le_nat[where b = "length gs"]) auto
  have "\<forall>j. m < j \<and> j < length gs \<longrightarrow> ref (gs ! j) \<noteq> r"
    using mx by fastforce
  with m findIndex_last[of m gs r k index] show ?thesis by blast
qed

lemma stackCheck_char:
  assumes "numbersValid hs procd"
  shows "stackCheck hs procd object pl = Some (stackSuppressed hs procd object pl)"
proof (cases "kind object = Circle")
  case False
  then show ?thesis by (simp add: stackCheck_def stackSuppressed_def)
next
  case True
  from findIndex_cases[of "ref object" procd 0 "-1"]
  show ?thesis
  proof
    assume a: "findIndex (ref object) procd 0 (- 1) = - 1 \<and> (\<forall>g\<in>set procd. ref g \<noteq> ref object)"
    then have "\<not> stackSuppressed hs procd object pl"
      by (auto simp: stackSuppressed_def)
    with a True show ?thesis by (simp add: stackCheck_def)
  next
    assume "\<exists>i<length procd. findIndex (ref object) procd 0 (- 1) = int (0 + i) \<and>
        ref (procd ! i) = ref object \<and> (\<forall>j. i < j \<and> j < length procd \<longrightarrow> ref (procd ! j) \<noteq> ref object)"
    then obtain i where i: "i < length procd" "findIndex (ref object) procd 0 (- 1) = int i"
      "ref (procd ! i) = ref object" "\<forall>j. i < j \<and> j < length procd \<longrightarrow> ref (procd ! j) \<noteq> ref object"
      by auto
    have uniq: "\<And>i'. i' < length procd \<Longrightarrow> ref (procd ! i') = ref object \<Longrightarrow>
        (\<forall>j. i' < j \<and> j < length procd \<longrightarrow> ref (procd ! j) \<noteq> ref object) \<Longrightarrow> i' = i"
      using i by (metis linorder_neqE_nat)
    show ?thesis
    proof (cases "0 < i")
      case False
      then have "\<not> stackSuppressed hs procd object pl"
        using uniq by (auto simp: stackSuppressed_def)
      with False i True show ?thesis by (simp add: stackCheck_def)
    next
      case pos: True
      then have mem: "procd ! (i - 1) \<in> set procd" using i(1) by simp
      then have v: "HitObjectsAt hs (number (procd ! (i - 1))) = Some (hs ! nat (number (procd ! (i - 1))))"
        using assms by (auto simp: numbersValid_def HitObjectsAt_def)
      have "nat (int i - 1) = i - 1" using pos by simp
      then have "stackCheck hs procd object pl =
         Some (StackIndex (hs ! nat (number (procd ! (i - 1)))) (Mods pl) > 0 \<and> \<not> IsHit (procd ! (i - 1)) (cursor pl))"
        using True i pos v by (simp add: stackCheck_def Let_def)
      moreover have "stackSuppressed hs procd object pl =
         (StackIndex (hs ! nat (number (procd ! (i - 1)))) (Mods pl) > 0 \<and> \<not> IsHit (procd ! (i - 1)) (cursor pl))"
        unfolding stackSuppressed_def using True i pos uniq by blast
      ultimately show ?thesis by simp
    qed
  qed
qed

lemma orderScan_char:
  assumes "numbersValid hs gs" "0 \<le> number object" "number object < int (length hs)"
  shows "orderScan hs object pl gs =
     Some (\<exists>g \<in> set (takeWhile (\<lambda>g. IsHit g (cursor pl) \<or> number g \<noteq> number object) gs).
             \<not> IsHit g (cursor pl) \<and> staleFor hs g object)"
  using assms
  by (induction gs) (auto simp: numbersValid_def HitObjectsAt_def staleFor_def Tolerance2B_def)

lemma hitRangeOf_eq:
  "hitRangeOf r pl = (if Relax2 \<in> Mods pl then fl64 (r - 200) else r)"
  by (simp add: hitRangeOf_def CheckModActive_def Active_def)

text \<open>
  C1, as the code has it. When the numbers of the active targets and of the candidate are
  indices of the beatmap, \<open>CanBeHit\<close> returns \<open>Ignored\<close> if the stack rule applies to the
  candidate. Otherwise it returns \<open>Shake\<close> exactly when one of the targets that the scan
  meets before it reaches the unresolved candidate is unresolved and stale (its end time
  plus 3 ms, the sum as \<^verbatim>\<open>float64\<close> rounds it, is before the candidate's start time), or when
  the distance in time between the click and the candidate's start, truncated to whole
  milliseconds, is at least the hittable range (200 less under Relax2). In every other
  case it returns \<open>Click\<close>. An unresolved target that is
  not stale does not end the scan: the scan ends only at the unresolved candidate or at the
  end of the active set.
\<close>

theorem CanBeHit_resolution:
  assumes "numbersValid hs procd" "0 \<le> number object" "number object < int (length hs)"
  shows "CanBeHit r hs procd time object pl = Some
     (if stackSuppressed hs procd object pl then Ignored
      else if (\<exists>g \<in> set (takeWhile (\<lambda>g. IsHit g (cursor pl) \<or> number g \<noteq> number object) procd).
                 \<not> IsHit g (cursor pl) \<and> staleFor hs g object)
              \<or> outOfWindow r hs time object pl then Shake
      else Click)"
proof -
  have v: "HitObjectsAt hs (number object) = Some (hs ! nat (number object))"
    using assms(2,3) by (simp add: HitObjectsAt_def)
  show ?thesis
    unfolding CanBeHit_def stackCheck_char[OF assms(1)] orderScan_char[OF assms] v
    by (auto simp: outOfWindow_def hitRangeOf_eq split: bool.splits)
qed

theorem CanBeHit_resolution_witness:
  "numbersValid exSkipMap exSkipActive \<and>
   CanBeHit 400 exSkipMap exSkipActive 150 (exTarget Slider 2 False) exPlayer = Some Shake"
  using CanBeHit_resolution[of exSkipMap exSkipActive "exTarget Slider 2 False" 400 150 exPlayer]
  by (simp add: numbersValid_def stackSuppressed_def exSkipActive_def exSkipMap_def exTarget_def
      exPlayer_def newPlayer_def exObj_def staleFor_def fl64_numeral)

text \<open>
  C1 as the specification states it fails three times. On the stacked circles a click
  500 ms before the start of the upper circle is outside the timing window, and the lower
  circle is unresolved and stale, but the answer is \<open>Ignored\<close>, not \<open>Shake\<close>. On the second map
  the first unresolved target before the candidate is not stale, so the scan of the
  specification ends there without \<open>Shake\<close>; the code goes on to the circle that is not yet
  judged and returns \<open>Shake\<close> for a click 150 ms before the candidate's start, inside the
  timing window. On the third map the end time of the unresolved slider plus 3 ms is before
  the start time of the circle, but the sum rounds to the start time itself, and a click
  at 3 ms gets \<open>Click\<close>.
\<close>

theorem CanBeHit_Shake_counterexample:
  "outOfWindow 400 exStackMap 700 (exTarget Circle 1 False) exPlayer \<and>
   staleFor exStackMap (exTarget Circle 0 False) (exTarget Circle 1 False) \<and>
   CanBeHit 400 exStackMap exStackActive 700 (exTarget Circle 1 False) exPlayer = Some Ignored \<and>
   \<not> staleFor exSkipMap (exTarget Slider 0 False) (exTarget Slider 2 False) \<and>
   \<not> specScan exSkipMap (exTarget Slider 2 False) exPlayer exSkipActive \<and>
   \<not> outOfWindow 400 exSkipMap 150 (exTarget Slider 2 False) exPlayer \<and>
   CanBeHit 400 exSkipMap exSkipActive 150 (exTarget Slider 2 False) exPlayer = Some Shake \<and>
   EndTime (exRoundMap ! 0) + 3 < StartTime (exRoundMap ! 1) \<and>
   CanBeHit 400 exRoundMap exRoundActive 3 (exTarget Circle 1 False) exPlayer = Some Click"
  by code_simp

text \<open>
  C8. The candidate is a circle held by the active set at a position \<open>i > 0\<close> (the active
  set holds each target once); the target before it has a positive stack index under the
  player's modifiers and is not hit by the player. Then \<open>CanBeHit\<close> returns \<open>Ignored\<close>,
  whatever the time of the click.
\<close>

theorem CanBeHit_stack_Ignored:
  assumes "kind object = Circle"
    and "distinct (map ref procd)"
    and "0 < i" and "i < length procd" and "ref (procd ! i) = ref object"
    and "HitObjectsAt hs (number (procd ! (i - 1))) = Some b"
    and "StackIndex b (Mods pl) > 0"
    and "\<not> IsHit (procd ! (i - 1)) (cursor pl)"
  shows "CanBeHit r hs procd time object pl = Some Ignored"
proof -
  have "\<forall>j. i < j \<and> j < length procd \<longrightarrow> ref (procd ! j) \<noteq> ref object"
  proof (intro allI impI)
    fix j assume j: "i < j \<and> j < length procd"
    then have "map ref procd ! i \<noteq> map ref procd ! j"
      using assms(2,4) by (auto simp: distinct_conv_nth)
    then show "ref (procd ! j) \<noteq> ref object" using assms(4,5) j by auto
  qed
  then have "findIndex (ref object) procd 0 (-1) = int (0 + i)"
    using assms(4,5) by (intro findIndex_last) auto
  moreover have "nat (int i - 1) = i - 1" using assms(3) by simp
  ultimately show ?thesis
    using assms by (simp add: CanBeHit_def stackCheck_def Let_def)
qed

theorem CanBeHit_stack_Ignored_witness:
  "CanBeHit 400 exStackMap exStackActive 1200 (exTarget Circle 1 False) exPlayer = Some Ignored"
  using CanBeHit_stack_Ignored[of "exTarget Circle 1 False" exStackActive 1 exStackMap
      "exObj Circle 1000 1000 1 True" exPlayer 400 1200]
  by (simp add: exStackActive_def exStackMap_def exTarget_def exPlayer_def newPlayer_def exObj_def
      HitObjectsAt_def)

section \<open>Ignored judgements: proofs\<close>

text \<open>
  C9, as the code has it. A judgement with outcome \<open>Ignore\<close> or \<open>PositionalMiss\<close> for a
  player of the ruleset returns the ruleset as it was: score, hit counts, number of judged
  objects, accuracy, combo, maximum combo, grade, bonus counters and health keep their
  values. The hit listener is called exactly when the outcome is \<open>PositionalMiss\<close>, a
  listener is registered and the player's Relax modifier is not active; an \<open>Ignore\<close> that
  is not the same constant as \<open>PositionalMiss\<close> is never reported.
\<close>

theorem SendResult_ignored:
  assumes "result = Ignore (results X) \<or> result = PositionalMiss (results X)"
    and "cursors rs c = Some sub"
  shows "SendResult X rs time c src x y result comboResult =
     Some (rs, if result = PositionalMiss (results X) \<and> hitListener rs \<and> Relax \<notin> Mods (player sub)
               then [hitEvent X c time (number src) x y result comboResult sub] else [])"
  using assms by (auto simp: SendResult_def Let_def Active_def)

theorem SendResult_ignored_witness:
  "SendResult exX (exRuleset {}) 1000 0 (exTarget Circle 0 False) 1 2 32768 Hold =
     Some (exRuleset {}, [HitEvent 0 1000 0 (1, 2) 32768 Hold () 0])"
  using SendResult_ignored[of 32768 exX "exRuleset {}" 0 "exSub {}" 1000 "exTarget Circle 0 False" 1 2 Hold]
  by (simp add: exRuleset_def exX_def exResults_def exSub_def newSubSet_def newPlayer_def
      hitEvent_def exTarget_def)

text \<open>
  C9 as the specification states it fails for a player with the Relax modifier: the
  listener is registered, the outcome is \<open>PositionalMiss\<close>, and nothing is reported.
\<close>

theorem SendResult_PositionalMiss_counterexample:
  "hitListener (exRuleset {Relax}) \<and>
   SendResult exX (exRuleset {Relax}) 1000 0 (exTarget Circle 0 False) 1 2 (PositionalMiss exResults) Hold =
     Some (exRuleset {Relax}, [])"
  by (simp add: SendResult_def exRuleset_def exX_def exResults_def exSub_def newSubSet_def
      newPlayer_def Active_def)

section \<open>Failing: proofs\<close>

lemma failInternal_eq:
  assumes "cursors rs (cursor pl) = Some sub" and "isInt64 (recoveries sub)"
  shows "failInternal X rs pl = Some
     (if Mods pl \<inter> {NoFail, Relax, Relax2} \<noteq> {} then (rs, [])
      else if recoveries sub > 0 then
        (rs\<lparr>cursors := (cursors rs)(cursor pl \<mapsto>
              sub\<lparr>hp := hpIncrease X 160 False (hp sub), recoveries := recoveries sub - 1\<rparr>)\<rparr>, [])
      else (rs\<lparr>cursors := (cursors rs)(cursor pl \<mapsto> sub\<lparr>failed := True\<rparr>)\<rparr>,
            if failListener rs \<and> \<not> failed sub then [FailEvent (cursor pl)] else []))"
proof -
  have "recoveries sub > 0 \<Longrightarrow> i64 (recoveries sub - 1) = recoveries sub - 1"
    using assms(2) by (intro i64_id) (simp add: isInt64_def)
  moreover have "{NoFail} \<union> {Relax} \<union> {Relax2} = {NoFail, Relax, Relax2}" by auto
  ultimately show ?thesis
    using assms(1) by (simp add: failInternal_def CheckModActive_def Active_def)
qed

lemma failSignals_silent:
  assumes "cursors rs (cursor pl) = Some sub" and "isInt64 (recoveries sub)" and "failed sub"
  shows "\<exists>rs'. failSignals X rs pl n = Some (rs', [])"
  using assms
proof (induction n arbitrary: rs sub)
  case 0
  then show ?case by simp
next
  case (Suc n)
  note eq = failInternal_eq[OF Suc.prems(1,2), of X]
  have "\<exists>rs1 sub1. failInternal X rs pl = Some (rs1, []) \<and> cursors rs1 (cursor pl) = Some sub1 \<and>
      isInt64 (recoveries sub1) \<and> failed sub1"
  proof (cases "Mods pl \<inter> {NoFail, Relax, Relax2} \<noteq> {}")
    case True
    with eq have "failInternal X rs pl = Some (rs, [])" by simp
    with Suc.prems show ?thesis by blast
  next
    case immune: False
    show ?thesis
    proof (cases "recoveries sub > 0")
      case True
      let ?sub = "sub\<lparr>hp := hpIncrease X 160 False (hp sub), recoveries := recoveries sub - 1\<rparr>"
      let ?rs = "rs\<lparr>cursors := (cursors rs)(cursor pl \<mapsto> ?sub)\<rparr>"
      have "failInternal X rs pl = Some (?rs, [])" using eq immune True by simp
      moreover have "cursors ?rs (cursor pl) = Some ?sub" by simp
      moreover have "isInt64 (recoveries ?sub)" using True Suc.prems(2) by (simp add: isInt64_def)
      moreover have "failed ?sub" using Suc.prems(3) by simp
      ultimately show ?thesis by blast
    next
      case False
      let ?sub = "sub\<lparr>failed := True\<rparr>"
      let ?rs = "rs\<lparr>cursors := (cursors rs)(cursor pl \<mapsto> ?sub)\<rparr>"
      have "failInternal X rs pl = Some (?rs, [])" using eq immune False Suc.prems(3) by simp
      moreover have "cursors ?rs (cursor pl) = Some ?sub" by simp
      moreover have "isInt64 (recoveries ?sub)" using Suc.prems(2) by simp
      moreover have "failed ?sub" by simp
      ultimately show ?thesis by blast
    qed
  qed
  then obtain rs1 sub1 where s: "failInternal X rs pl = Some (rs1, [])" "cursors rs1 (cursor pl) = Some sub1"
    "isInt64 (recoveries sub1)" "failed sub1" by blast
  from Suc.IH[OF s(2,3,4)] obtain rs' where "failSignals X rs1 pl n = Some (rs', [])" by blast
  with s(1) show ?case by simp
qed

text \<open>
  C5. For a player of the ruleset, one fail signal does the following. If one of NoFail,
  Relax and Relax2 is active, the ruleset is returned as it was: the signal is discarded, the
  health is not touched and no listener is called. Otherwise, if the recovery budget is
  positive, it goes down by one, the health processor is asked for the increase of 160, the
  fail flag keeps its value and no listener is called. Otherwise the fail flag is set, and
  the fail listener is called exactly when one is registered and the flag was not set
  before. Once the flag is set, no number of further fail signals calls the listener.
\<close>

theorem failInternal_cases:
  assumes "cursors rs (cursor pl) = Some sub" and "isInt64 (recoveries sub)"
  shows "failInternal X rs pl = Some
     (if Mods pl \<inter> {NoFail, Relax, Relax2} \<noteq> {} then (rs, [])
      else if recoveries sub > 0 then
        (rs\<lparr>cursors := (cursors rs)(cursor pl \<mapsto>
              sub\<lparr>hp := hpIncrease X 160 False (hp sub), recoveries := recoveries sub - 1\<rparr>)\<rparr>, [])
      else (rs\<lparr>cursors := (cursors rs)(cursor pl \<mapsto> sub\<lparr>failed := True\<rparr>)\<rparr>,
            if failListener rs \<and> \<not> failed sub then [FailEvent (cursor pl)] else []))
    \<and> (failed sub \<longrightarrow> (\<forall>n. \<exists>rs'. failSignals X rs pl n = Some (rs', [])))"
  using failInternal_eq[OF assms] failSignals_silent[OF assms] by blast

theorem failInternal_cases_witness:
  "map_option (\<lambda>(rs, evs). (map_option recoveries (cursors rs 0), map_option hp (cursors rs 0),
        map_option failed (cursors rs 0), evs))
     (failInternal exX (exRuleset {Easy}) (newPlayer 0 {Easy})) = Some (Some 1, Some 200, Some False, [])"
  using failInternal_cases[of "exRuleset {Easy}" "newPlayer 0 {Easy}" "exSub {Easy}" exX]
  by (simp add: exRuleset_def exSub_def newSubSet_def newPlayer_def exX_def isInt64_def CheckModActive_def Active_def)

section \<open>The prefix aggregates and the perfect-combo query: proofs\<close>

lemma comboOf_pos: "1 \<le> comboOf ob" by (simp add: comboOf_def)

lemma comboUpTo_nonneg: "0 \<le> comboUpTo hs n"
  unfolding comboUpTo_def
proof (induction hs arbitrary: n)
  case Nil show ?case by simp
next
  case (Cons a hs)
  show ?case using Cons[of "n - 1"] comboOf_pos[of a] by (cases n) auto
qed

lemma comboUpTo_Cons: "comboUpTo (ob # obs) (Suc n) = comboOf ob + comboUpTo obs n"
  by (simp add: comboUpTo_def)

lemma comboUpTo_mono: "comboUpTo hs n \<le> comboUpTo hs (length hs)"
proof (induction hs arbitrary: n)
  case Nil show ?case by (simp add: comboUpTo_def)
next
  case (Cons a hs)
  show ?case
  proof (cases n)
    case 0 then show ?thesis using comboUpTo_nonneg[of "a # hs" "length (a # hs)"] by (simp add: comboUpTo_def)
  next
    case (Suc m) then show ?thesis using Cons[of m] by (simp add: comboUpTo_Cons)
  qed
qed

lemma length_le_comboUpTo: "int (length hs) \<le> comboUpTo hs (length hs)"
  using comboOf_pos by (induction hs) (auto simp: comboUpTo_Cons comboUpTo_def add_mono)

lemma nextMapTo_combo:
  assumes "0 \<le> mapMaxCombo m" "mapMaxCombo m + comboOf ob < 9223372036854775808"
  shows "mapMaxCombo (nextMapTo m ob) = mapMaxCombo m + comboOf ob"
proof (cases "objKind ob")
  case Slider
  have a: "i64 (mapMaxCombo m + int (ScorePoints ob)) = mapMaxCombo m + int (ScorePoints ob)"
    using assms Slider by (intro i64_id) (simp add: isInt64_def comboOf_def)
  have "i64 (mapMaxCombo m + int (ScorePoints ob) + 1) = mapMaxCombo m + int (ScorePoints ob) + 1"
    using assms Slider by (intro i64_id) (simp add: isInt64_def comboOf_def)
  with a Slider show ?thesis by (simp add: nextMapTo_def comboOf_def)
next
  case Circle
  have "i64 (mapMaxCombo m + 1) = mapMaxCombo m + 1"
    using assms Circle by (intro i64_id) (simp add: isInt64_def comboOf_def)
  with Circle show ?thesis by (simp add: nextMapTo_def comboOf_def)
next
  case Spinner
  have "i64 (mapMaxCombo m + 1) = mapMaxCombo m + 1"
    using assms Spinner by (intro i64_id) (simp add: isInt64_def comboOf_def)
  with Spinner show ?thesis by (simp add: nextMapTo_def comboOf_def)
qed

lemma buildMapStats_length: "length (buildMapStats obs stats) = length stats + length obs"
  by (induction obs arbitrary: stats) auto

lemma buildMapStats_old: "i < length stats \<Longrightarrow> buildMapStats obs stats ! i = stats ! i"
  by (induction obs arbitrary: stats) (auto simp: nth_append)

lemma buildMapStats_combo:
  assumes "0 \<le> mapMaxCombo (baseOf stats)"
    and "mapMaxCombo (baseOf stats) + comboUpTo obs (length obs) < 9223372036854775808"
    and "i < length obs"
  shows "mapMaxCombo (buildMapStats obs stats ! (length stats + i)) = mapMaxCombo (baseOf stats) + comboUpTo obs (Suc i)"
  using assms
proof (induction obs arbitrary: stats i)
  case Nil
  then show ?case by simp
next
  case (Cons ob obs)
  let ?m = "nextMapTo (baseOf stats) ob"
  let ?stats = "stats @ [?m]"
  have le: "comboOf ob \<le> comboUpTo (ob # obs) (length (ob # obs))"
    using comboUpTo_nonneg[of obs "length obs"] by (simp add: comboUpTo_Cons)
  have m: "mapMaxCombo ?m = mapMaxCombo (baseOf stats) + comboOf ob"
    using Cons.prems le by (intro nextMapTo_combo) auto
  have base: "baseOf ?stats = ?m" by (simp add: baseOf_def)
  have step: "buildMapStats (ob # obs) stats = buildMapStats obs ?stats"
    by (simp add: baseOf_def)
  show ?case
  proof (cases i)
    case 0
    have "buildMapStats obs ?stats ! length stats = ?stats ! length stats"
      by (intro buildMapStats_old) simp
    then show ?thesis using 0 m step by (simp add: comboUpTo_def)
  next
    case (Suc i')
    have "mapMaxCombo (buildMapStats obs ?stats ! (length ?stats + i')) = mapMaxCombo (baseOf ?stats) + comboUpTo obs (Suc i')"
    proof (rule Cons.IH)
      show "0 \<le> mapMaxCombo (baseOf ?stats)" using base m Cons.prems(1) comboOf_pos[of ob] by simp
      show "mapMaxCombo (baseOf ?stats) + comboUpTo obs (length obs) < 9223372036854775808"
        using base m Cons.prems(2) by (simp add: comboUpTo_Cons)
      show "i' < length obs" using Cons.prems(3) Suc by simp
    qed
    then show ?thesis using Suc base m step by (simp add: comboUpTo_Cons)
  qed
qed

text \<open>
  C10, as the code has it. After construction the entry \<open>i\<close> of \<open>mapStats\<close> holds the
  maximum combo of the first \<open>i + 1\<close> targets. \<open>IsPerfect\<close> compares the player's
  maximum combo with the entry at \<open>numObjects - 1\<close>: it returns true exactly when the
  maximum combo equals the maximum combo achievable on the targets counted so far for that
  player. This is the total of the sequence once every target has been counted.
\<close>

theorem IsPerfect_prefix:
  assumes "mapStats rs = buildMapStats hs []"
    and "cursors rs c = Some sub"
    and "1 \<le> numObjects sub" and "numObjects sub \<le> int (length hs)"
    and "comboUpTo hs (length hs) < 9223372036854775808"
  shows "IsPerfect rs c = Some (maxCombo sub = comboUpTo hs (nat (numObjects sub)))"
proof -
  have len: "int (length hs) < 9223372036854775808"
    using length_le_comboUpTo[of hs] assms(5) by simp
  have i: "i64 (numObjects sub - 1) = numObjects sub - 1"
    using assms(3,4) len by (intro i64_id) (simp add: isInt64_def)
  have lt: "nat (numObjects sub - 1) < length hs" using assms(3,4) by simp
  have "mapMaxCombo (buildMapStats hs [] ! (length ([]::MapTo list) + nat (numObjects sub - 1)))
      = mapMaxCombo (baseOf []) + comboUpTo hs (Suc (nat (numObjects sub - 1)))"
    using assms(5) lt by (intro buildMapStats_combo) (simp_all add: baseOf_def)
  moreover have "Suc (nat (numObjects sub - 1)) = nat (numObjects sub)" using assms(3) by simp
  ultimately have "mapMaxCombo (mapStats rs ! nat (numObjects sub - 1)) = comboUpTo hs (nat (numObjects sub))"
    using assms(1) by (simp add: baseOf_def)
  then show ?thesis
    using assms i lt by (simp add: IsPerfect_def Let_def buildMapStats_length)
qed

theorem IsPerfect_prefix_witness:
  "IsPerfect ((exRuleset {})\<lparr>cursors := [0 \<mapsto> (exSub {})\<lparr>numObjects := 2, maxCombo := 2\<rparr>]\<rparr>) 0 = Some True"
proof -
  let ?sub = "(exSub {})\<lparr>numObjects := 2, maxCombo := 2\<rparr>"
  let ?rs = "(exRuleset {})\<lparr>cursors := [0 \<mapsto> ?sub]\<rparr>"
  have h1: "mapStats ?rs = buildMapStats (HitObjects exMap) []" by (simp add: exRuleset_def)
  have h2: "cursors ?rs 0 = Some ?sub" by simp
  have h3: "1 \<le> numObjects ?sub" by simp
  have h4: "numObjects ?sub \<le> int (length (HitObjects exMap))" by (simp add: exMap_def)
  have h5: "comboUpTo (HitObjects exMap) (length (HitObjects exMap)) < 9223372036854775808"
    by (simp add: comboUpTo_def comboOf_def exMap_def exObj_def)
  have "comboUpTo (HitObjects exMap) (nat (numObjects ?sub)) = 2"
    by (simp add: comboUpTo_def comboOf_def exMap_def exObj_def)
  with IsPerfect_prefix[OF h1 h2 h3 h4 h5] show ?thesis by simp
qed

text \<open>
  C10 as the specification states it fails in the middle of a run. On the map of two circles,
  after the first circle has been hit with a 300 the player's maximum combo is 1 and the
  total maximum combo of the sequence is 2, yet \<open>IsPerfect\<close> returns true.
\<close>

theorem IsPerfect_total_counterexample:
  "Option.bind (SendResult exX (exRuleset {}) 1000 0 (exTarget Circle 0 False) 0 0 (Hit300 exResults) Increase)
     (\<lambda>(rs, evs). map_option (\<lambda>p. (p, map_option maxCombo (cursors rs 0),
          comboUpTo (HitObjects (beatMap rs)) (length (HitObjects (beatMap rs))))) (IsPerfect rs 0))
   = Some (True, Some 1, 2)"
  by code_simp

section \<open>The passes: proofs\<close>

lemma normalLoop_offered:
  "normalLoop T c time ahead k i was rs = Some (rs', evs, offered) \<Longrightarrow>
     (was \<longrightarrow> (\<forall>e \<in> set offered. kind (snd e) \<noteq> Slider)) \<and>
     (\<forall>xs e ys. offered = xs @ e # ys \<and> unhitSlider c e \<longrightarrow> (\<forall>e' \<in> set ys. kind (snd e') \<noteq> Slider))"
proof (induction k arbitrary: i was rs rs' evs offered)
  case 0
  then show ?case by simp
next
  case (Suc k)
  show ?case
  proof (cases "i < length (processed rs)")
    case False
    with Suc.prems show ?thesis by simp
  next
    case inb: True
    let ?g = "processed rs ! i"
    show ?thesis
    proof (cases "kind ?g = Slider \<and> was")
      case True
      with Suc.prems inb have "normalLoop T c time ahead k (Suc i) was rs = Some (rs', evs, offered)"
        by (simp add: Let_def)
      from Suc.IH[OF this] show ?thesis .
    next
      case nskip: False
      let ?was = "if kind ?g = Slider \<and> \<not> IsHit ?g c then True else was"
      from Suc.prems inb nskip obtain rs1 evs1 rs2 evs2 offered1 where
        r: "tUpdateFor T i c time ahead rs = Some (rs1, evs1)"
           "normalLoop T c time ahead k (Suc i) ?was rs1 = Some (rs2, evs2, offered1)"
           "offered = (i, ?g) # offered1"
        by (auto simp: Let_def split: option.splits)
      note ih = Suc.IH[OF r(2)]
      have a: "was \<longrightarrow> (\<forall>e \<in> set offered. kind (snd e) \<noteq> Slider)"
        using ih nskip r(3) by auto
      have b: "\<forall>xs e ys. offered = xs @ e # ys \<and> unhitSlider c e \<longrightarrow> (\<forall>e' \<in> set ys. kind (snd e') \<noteq> Slider)"
      proof (intro allI impI)
        fix xs e ys assume h: "offered = xs @ e # ys \<and> unhitSlider c e"
        show "\<forall>e' \<in> set ys. kind (snd e') \<noteq> Slider"
        proof (cases xs)
          case Nil
          with h r(3) have "e = (i, ?g)" "ys = offered1" by auto
          with h have "?was" by (simp add: unhitSlider_def)
          with ih \<open>ys = offered1\<close> show ?thesis by blast
        next
          case (Cons x xs')
          with h r(3) have "offered1 = xs' @ e # ys" by simp
          with ih h show ?thesis by blast
        qed
      qed
      from a b show ?thesis by blast
    qed
  qed
qed

lemma one_unhit:
  "(\<forall>xs e ys. offered = xs @ e # ys \<and> unhitSlider c e \<longrightarrow> (\<forall>e' \<in> set ys. kind (snd e') \<noteq> Slider))
   \<Longrightarrow> length (filter (unhitSlider c) offered) \<le> 1"
proof (induction offered)
  case Nil
  then show ?case by simp
next
  case (Cons a offered)
  have tl: "\<forall>xs e ys. offered = xs @ e # ys \<and> unhitSlider c e \<longrightarrow> (\<forall>e' \<in> set ys. kind (snd e') \<noteq> Slider)"
  proof (intro allI impI)
    fix xs e ys assume "offered = xs @ e # ys \<and> unhitSlider c e"
    then have "a # offered = (a # xs) @ e # ys \<and> unhitSlider c e" by simp
    with Cons.prems show "\<forall>e' \<in> set ys. kind (snd e') \<noteq> Slider" by blast
  qed
  show ?case
  proof (cases "unhitSlider c a")
    case False
    with Cons.IH[OF tl] show ?thesis by simp
  next
    case True
    have "a # offered = [] @ a # offered \<and> unhitSlider c a" using True by simp
    with Cons.prems have "\<forall>e' \<in> set offered. kind (snd e') \<noteq> Slider" by blast
    then have "filter (unhitSlider c) offered = []"
      by (auto simp: filter_empty_conv unhitSlider_def)
    with True show ?thesis by simp
  qed
qed

text \<open>
  C7, as the code has it. The rule is in the passive pass, \<open>UpdateNormalFor\<close>: among the
  targets whose \<open>UpdateFor\<close> the pass calls for a player, no slider comes after a slider that
  was not hit by that player when it was offered, so at most one slider that is not hit is
  updated in a pass.
\<close>

theorem UpdateNormalFor_one_slider:
  assumes "UpdateNormalFor T rs c time ahead = Some (rs', evs, offered)"
  shows "length (filter (unhitSlider c) offered) \<le> 1 \<and>
     (\<forall>xs e ys. offered = xs @ e # ys \<and> unhitSlider c e \<longrightarrow> (\<forall>e' \<in> set ys. kind (snd e') \<noteq> Slider))"
proof -
  from assms have "normalLoop T c time ahead (length (processed rs)) 0 False rs = Some (rs', evs, offered)"
    by (simp add: UpdateNormalFor_def split: option.splits)
  from normalLoop_offered[OF this]
  have b: "\<forall>xs e ys. offered = xs @ e # ys \<and> unhitSlider c e \<longrightarrow> (\<forall>e' \<in> set ys. kind (snd e') \<noteq> Slider)"
    by blast
  with one_unhit[OF b] show ?thesis by blast
qed

lemma exNormal:
  "UpdateNormalFor exT exSliderSet 0 1000 False =
     Some (exSliderSet, [], [(0, exTarget Slider 0 False), (2, exTarget Circle 2 False)])"
  by (simp add: UpdateNormalFor_def exSliderSet_def exRuleset_def exT_def exTarget_def Let_def)

theorem UpdateNormalFor_one_slider_witness:
  "UpdateNormalFor exT exSliderSet 0 1000 False =
     Some (exSliderSet, [], [(0, exTarget Slider 0 False), (2, exTarget Circle 2 False)]) \<and>
   length (filter (unhitSlider 0) [(0, exTarget Slider 0 False), (2, exTarget Circle 2 False)]) \<le> 1"
  using UpdateNormalFor_one_slider[OF exNormal] exNormal by simp

text \<open>
  C7 as the specification states it fails: the click pass has no such rule. With two
  sliders that are not hit and a circle in the active set, \<open>UpdateClickFor\<close> offers the click
  to all three.
\<close>

theorem UpdateClickFor_counterexample:
  "map_option (\<lambda>(rs, evs, offered). map (\<lambda>(i, g). (i, kind g, IsHit g 0)) offered)
     (UpdateClickFor exT exSliderSet exClick 0 1000)
   = Some [(0, Slider, False), (1, Slider, False), (2, Circle, False)]"
  by code_simp

section \<open>Result aggregation: proofs\<close>

lemma failInternal_keyed:
  assumes "cursors rs (cursor pl) = Some sub" "player sub = pl"
  shows "\<exists>evs. failInternal X rs pl = Some (rs\<lparr>cursors := (cursors rs)(cursor pl \<mapsto> failSub X sub)\<rparr>, evs)
      \<and> (\<forall>e \<in> set evs. isFailEvent e)"
proof (cases "CheckModActive pl ({NoFail} \<union> {Relax} \<union> {Relax2})")
  case True
  have "rs\<lparr>cursors := (cursors rs)(cursor pl \<mapsto> sub)\<rparr> = rs"
    using assms(1) by (simp add: fun_upd_idem)
  with True assms show ?thesis by (simp add: failInternal_def failSub_def)
next
  case False
  with assms show ?thesis by (simp add: failInternal_def failSub_def isFailEvent_def)
qed

lemma scorePart_failSub: "scorePart (failSub X sub) = scorePart sub"
  by (simp add: failSub_def scorePart_def)

lemma failInternal_scorePart:
  assumes "failInternal X rs pl = Some (rs', evs)"
  shows "rs'\<lparr>cursors := cursors rs\<rparr> = rs \<and>
     (\<forall>c. map_option scorePart (cursors rs' c) = map_option scorePart (cursors rs c)) \<and>
     (\<forall>e \<in> set evs. isFailEvent e)"
proof (cases "CheckModActive pl ({NoFail} \<union> {Relax} \<union> {Relax2})")
  case True
  with assms show ?thesis by (simp add: failInternal_def)
next
  case False
  with assms obtain sub where sub: "cursors rs (cursor pl) = Some sub"
    by (auto simp: failInternal_def split: option.splits)
  show ?thesis
  proof (cases "recoveries sub > 0")
    case True
    with False sub assms show ?thesis
      by (auto simp: failInternal_def scorePart_def)
  next
    case nr: False
    with False sub assms show ?thesis
      by (auto simp: failInternal_def scorePart_def isFailEvent_def)
  qed
qed

lemma SendResult_counted_eq:
  assumes "result \<noteq> Ignore (results X)" "result \<noteq> PositionalMiss (results X)"
    and "cursors rs c = Some sub0"
  shows "SendResult X rs time c src x y result comboResult =
     (case updatePP X rs (aggregate X (spModifyResult X result src (scoreProcessor sub0)) comboResult sub0) of
        None \<Rightarrow> None
      | Some sub1 \<Rightarrow>
         (case closeRun (results X) (HitObjects (beatMap rs)) (processed rs) (number src)
                 (spModifyResult X result src (scoreProcessor sub0))
                 (countRun (results X) (spModifyResult X result src (scoreProcessor sub0)) sub1) of
            None \<Rightarrow> None
          | Some (sub2, result2) \<Rightarrow>
             (case (if snd (hpAddResult X result2 (hp sub2))
                    then failInternal X (rs\<lparr>cursors := (cursors rs)(c \<mapsto> sub2\<lparr>hp := fst (hpAddResult X result2 (hp sub2))\<rparr>)\<rparr>) (player sub2)
                    else Some (rs\<lparr>cursors := (cursors rs)(c \<mapsto> sub2\<lparr>hp := fst (hpAddResult X result2 (hp sub2))\<rparr>)\<rparr>, [])) of
                None \<Rightarrow> None
              | Some (rs2, evs) \<Rightarrow>
                  Some (rs2, evs @ (if hitListener rs
                                    then [hitEvent X c time (number src) x y result2 comboResult sub2]
                                    else [])))))"
  using assms by (simp add: SendResult_def Let_def split_beta split: option.splits)

lemma SendResult_counted:
  assumes "result \<noteq> Ignore (results X)" "result \<noteq> PositionalMiss (results X)"
    and "cursors rs c = Some sub0"
    and "SendResult X rs time c src x y result comboResult = Some (rs', evs)"
  shows "\<exists>sub1 sub2 result2 fevs.
     updatePP X rs (aggregate X (spModifyResult X result src (scoreProcessor sub0)) comboResult sub0) = Some sub1 \<and>
     closeRun (results X) (HitObjects (beatMap rs)) (processed rs) (number src)
                 (spModifyResult X result src (scoreProcessor sub0))
                 (countRun (results X) (spModifyResult X result src (scoreProcessor sub0)) sub1) = Some (sub2, result2) \<and>
     rs'\<lparr>cursors := cursors rs\<rparr> = rs \<and>
     map_option scorePart (cursors rs' c) = Some (scorePart sub2) \<and>
     (\<forall>c'. c' \<noteq> c \<longrightarrow> map_option scorePart (cursors rs' c') = map_option scorePart (cursors rs c')) \<and>
     evs = fevs @ (if hitListener rs then [hitEvent X c time (number src) x y result2 comboResult sub2] else []) \<and>
     (\<forall>e \<in> set fevs. isFailEvent e)"
proof -
  let ?r1 = "spModifyResult X result src (scoreProcessor sub0)"
  note eq = SendResult_counted_eq[OF assms(1,2,3), of time src x y comboResult]
  from assms(4) eq obtain sub1 where s1: "updatePP X rs (aggregate X ?r1 comboResult sub0) = Some sub1"
    by (auto split: option.splits)
  from assms(4) eq s1 obtain sub2 result2 where s2:
    "closeRun (results X) (HitObjects (beatMap rs)) (processed rs) (number src) ?r1 (countRun (results X) ?r1 sub1) = Some (sub2, result2)"
    by (auto split: option.splits)
  let ?h = "fst (hpAddResult X result2 (hp sub2))"
  let ?rs1 = "rs\<lparr>cursors := (cursors rs)(c \<mapsto> sub2\<lparr>hp := ?h\<rparr>)\<rparr>"
  from assms(4) eq s1 s2 obtain fevs where s3:
    "(if snd (hpAddResult X result2 (hp sub2)) then failInternal X ?rs1 (player sub2) else Some (?rs1, [])) = Some (rs', fevs)"
    "evs = fevs @ (if hitListener rs then [hitEvent X c time (number src) x y result2 comboResult sub2] else [])"
    by (auto split: option.splits)
  have base: "?rs1\<lparr>cursors := cursors rs\<rparr> = rs" by simp
  have p: "rs'\<lparr>cursors := cursors ?rs1\<rparr> = ?rs1 \<and>
     (\<forall>c'. map_option scorePart (cursors rs' c') = map_option scorePart (cursors ?rs1 c')) \<and>
     (\<forall>e \<in> set fevs. isFailEvent e)"
  proof (cases "snd (hpAddResult X result2 (hp sub2))")
    case True
    with s3(1) have "failInternal X ?rs1 (player sub2) = Some (rs', fevs)" by simp
    from failInternal_scorePart[OF this] show ?thesis .
  next
    case False
    with s3(1) show ?thesis by simp
  qed
  have a: "rs'\<lparr>cursors := cursors rs\<rparr> = rs"
  proof -
    from p have "rs'\<lparr>cursors := cursors ?rs1\<rparr> = ?rs1" by blast
    then have "(rs'\<lparr>cursors := cursors ?rs1\<rparr>)\<lparr>cursors := cursors rs\<rparr> = ?rs1\<lparr>cursors := cursors rs\<rparr>" by simp
    then show ?thesis by simp
  qed
  have b: "map_option scorePart (cursors rs' c) = Some (scorePart sub2)"
    using p by (simp add: scorePart_def)
  have d: "\<forall>c'. c' \<noteq> c \<longrightarrow> map_option scorePart (cursors rs' c') = map_option scorePart (cursors rs c')"
    using p by simp
  from s1 s2 a b d s3(2) p show ?thesis by blast
qed

lemma updatePP_fields:
  assumes "updatePP X rs sub = Some sub1"
  shows "sub1\<lparr>ppv2 := ppv2 sub\<rparr> = sub \<and> MaxI64 0 (i64 (numObjects sub - 1)) < int (length (mapStats rs))"
  using assms by (auto simp: updatePP_def Let_def split: if_splits)

lemma countRun_fields:
  "(countRun K result sub)\<lparr>currentKatu := currentKatu sub, currentBad := currentBad sub\<rparr> = sub"
  by (simp add: countRun_def)

lemma classifyRun_fields:
  assumes "classifyRun K ac result sub = (sub2, result2)"
  shows "sub2\<lparr>currentKatu := currentKatu sub, currentBad := currentBad sub,
              gekiCount := gekiCount sub, katuCount := katuCount sub\<rparr> = sub"
  using assms by (auto simp: classifyRun_def Let_def split: if_splits)

lemma closeRun_fields:
  assumes "closeRun K hs procd num result sub = Some (sub2, result2)"
  shows "sub2\<lparr>currentKatu := currentKatu sub, currentBad := currentBad sub,
              gekiCount := gekiCount sub, katuCount := katuCount sub\<rparr> = sub"
proof (cases "closesRun K hs num result")
  case None
  with assms show ?thesis by (simp add: closeRun_def)
next
  case (Some b)
  show ?thesis
  proof (cases b)
    case False
    with Some assms show ?thesis by (simp add: closeRun_def)
  next
    case True
    with Some assms obtain ac where "classifyRun K ac result sub = (sub2, result2)"
      by (auto simp: closeRun_def split: option.splits)
    from classifyRun_fields[OF this] show ?thesis .
  qed
qed

lemma after_aggregate:
  assumes "updatePP X rs agg = Some sub1"
    and "closeRun K hs procd num result (countRun K result sub1) = Some (sub2, result2)"
  shows "rawScore sub2 = rawScore agg \<and> accuracy sub2 = accuracy agg \<and> maxCombo sub2 = maxCombo agg \<and>
     numObjects sub2 = numObjects agg \<and> grade sub2 = grade agg \<and> hits sub2 = hits agg \<and>
     player sub2 = player agg \<and> scoreProcessor sub2 = scoreProcessor agg \<and>
     MaxI64 0 (i64 (numObjects agg - 1)) < int (length (mapStats rs))"
proof -
  from updatePP_fields[OF assms(1)] have a: "sub1\<lparr>ppv2 := ppv2 agg\<rparr> = agg"
    and idx: "MaxI64 0 (i64 (numObjects agg - 1)) < int (length (mapStats rs))" by auto
  let ?s = "countRun K result sub1"
  have b: "?s\<lparr>currentKatu := currentKatu sub1, currentBad := currentBad sub1\<rparr> = sub1"
    by (rule countRun_fields)
  have c: "sub2\<lparr>currentKatu := currentKatu ?s, currentBad := currentBad ?s,
              gekiCount := gekiCount ?s, katuCount := katuCount ?s\<rparr> = ?s"
    by (rule closeRun_fields[OF assms(2)])
  have f1: "rawScore sub1 = rawScore agg \<and> accuracy sub1 = accuracy agg \<and> maxCombo sub1 = maxCombo agg \<and>
     numObjects sub1 = numObjects agg \<and> grade sub1 = grade agg \<and> hits sub1 = hits agg \<and>
     player sub1 = player agg \<and> scoreProcessor sub1 = scoreProcessor agg"
    by (subst (1 2 3 4 5 6 7 8) a[symmetric]) simp
  have f2: "rawScore ?s = rawScore sub1 \<and> accuracy ?s = accuracy sub1 \<and> maxCombo ?s = maxCombo sub1 \<and>
     numObjects ?s = numObjects sub1 \<and> grade ?s = grade sub1 \<and> hits ?s = hits sub1 \<and>
     player ?s = player sub1 \<and> scoreProcessor ?s = scoreProcessor sub1"
    by (simp add: countRun_def)
  have f3: "rawScore sub2 = rawScore ?s \<and> accuracy sub2 = accuracy ?s \<and> maxCombo sub2 = maxCombo ?s \<and>
     numObjects sub2 = numObjects ?s \<and> grade sub2 = grade ?s \<and> hits sub2 = hits ?s \<and>
     player sub2 = player ?s \<and> scoreProcessor sub2 = scoreProcessor ?s"
    by (subst (1 2 3 4 5 6 7 8) c[symmetric]) simp
  from f1 f2 f3 idx show ?thesis by simp
qed

lemma scorePart_eqD:
  assumes "map_option scorePart (cursors rs' c) = Some (scorePart sub2)"
  shows "\<exists>sub'. cursors rs' c = Some sub' \<and> rawScore sub' = rawScore sub2 \<and> accuracy sub' = accuracy sub2 \<and>
     maxCombo sub' = maxCombo sub2 \<and> numObjects sub' = numObjects sub2 \<and> grade sub' = grade sub2 \<and>
     hits sub' = hits sub2 \<and> player sub' = player sub2 \<and> currentKatu sub' = currentKatu sub2 \<and>
     currentBad sub' = currentBad sub2 \<and> gekiCount sub' = gekiCount sub2 \<and> katuCount sub' = katuCount sub2 \<and>
     scoreProcessor sub' = scoreProcessor sub2 \<and> ppv2 sub' = ppv2 sub2"
  using assms by (cases "cursors rs' c") (auto simp: scorePart_def)

lemma aggregate_unfold:
  "aggregate X result cr sub =
     updateGrade (results X) (updateAccuracy
       ((countResult (results X) result (sub\<lparr>scoreProcessor := spAddResult X result cr (scoreProcessor sub)\<rparr>))
          \<lparr>maxCombo := MaxI64 (spGetCombo X (scoreProcessor (countResult (results X) result
                (sub\<lparr>scoreProcessor := spAddResult X result cr (scoreProcessor sub)\<rparr>))))
             (maxCombo (countResult (results X) result
                (sub\<lparr>scoreProcessor := spAddResult X result cr (scoreProcessor sub)\<rparr>)))\<rparr>))"
  by (simp add: aggregate_def Let_def)

lemma updateGrade_keeps:
  "hits (updateGrade K sub) = hits sub \<and> numObjects (updateGrade K sub) = numObjects sub \<and>
   rawScore (updateGrade K sub) = rawScore sub \<and> accuracy (updateGrade K sub) = accuracy sub \<and>
   player (updateGrade K sub) = player sub"
  by (simp add: updateGrade_def Let_def)

lemma updateAccuracy_keeps:
  "hits (updateAccuracy sub) = hits sub \<and> numObjects (updateAccuracy sub) = numObjects sub \<and>
   rawScore (updateAccuracy sub) = rawScore sub \<and> player (updateAccuracy sub) = player sub"
  by (simp add: updateAccuracy_def)

lemma countResult_keeps: "player (countResult K result sub) = player sub"
  by (simp add: countResult_def)

lemma aggregate_counts:
  "hits (aggregate X result cr sub) = hits (countResult (results X) result sub) \<and>
   numObjects (aggregate X result cr sub) = numObjects (countResult (results X) result sub) \<and>
   rawScore (aggregate X result cr sub) = rawScore (countResult (results X) result sub) \<and>
   player (aggregate X result cr sub) = player sub"
  unfolding aggregate_unfold
  by (simp add: updateGrade_keeps updateAccuracy_keeps countResult_def)

lemma grade_ifs:
  "grade (if c1 then (if v then sub\<lparr>grade := SSH\<rparr> else sub\<lparr>grade := SS\<rparr>)
          else if c2 then (if v then sub\<lparr>grade := SH\<rparr> else sub\<lparr>grade := S\<rparr>)
          else if c3 then sub\<lparr>grade := A\<rparr>
          else if c4 then sub\<lparr>grade := B\<rparr>
          else if c5 then sub\<lparr>grade := C\<rparr>
          else sub\<lparr>grade := D\<rparr>) =
     (if c1 then (if v then SSH else SS)
      else if c2 then (if v then SH else S)
      else if c3 then A else if c4 then B else if c5 then C else D)"
  by simp

lemma updateGrade_spec:
  assumes "numObjects sub \<noteq> 0"
  shows "grade (updateGrade K sub) =
     specGrade (hits sub (Hit300 K)) (hits sub (Hit50 K)) (hits sub (Miss K)) (numObjects sub)
       (Mods (player sub) \<inter> {Hidden, Flashlight} \<noteq> {})"
proof -
  have u: "{Hidden} \<union> {Flashlight} = {Hidden, Flashlight}" by auto
  have q1: "\<And>a c. quotGt a (numObjects sub) c = (real_of_int a / real_of_int (numObjects sub) > c)"
    using assms by (simp add: quotGt_def)
  have q2: "\<And>a c. quotLt a (numObjects sub) c = (real_of_int a / real_of_int (numObjects sub) < c)"
    using assms by (simp add: quotLt_def)
  show ?thesis
    unfolding updateGrade_def specGrade_def Let_def q1 q2 hiddenOrFlashlight_def u grade_ifs
    by (rule refl)
qed

lemma aggregate_spec:
  assumes "numObjects (aggregate X result cr sub) \<noteq> 0"
  shows "grade (aggregate X result cr sub) =
     specGrade (hits (aggregate X result cr sub) (Hit300 (results X)))
       (hits (aggregate X result cr sub) (Hit50 (results X)))
       (hits (aggregate X result cr sub) (Miss (results X)))
       (numObjects (aggregate X result cr sub))
       (Mods (player (aggregate X result cr sub)) \<inter> {Hidden, Flashlight} \<noteq> {})"
proof -
  obtain s where a: "aggregate X result cr sub = updateGrade (results X) s"
    using aggregate_unfold by blast
  have b: "hits (updateGrade (results X) s) = hits s \<and> numObjects (updateGrade (results X) s) = numObjects s \<and>
     player (updateGrade (results X) s) = player s"
    by (simp add: updateGrade_keeps)
  from assms a b have "numObjects s \<noteq> 0" by simp
  from updateGrade_spec[OF this, of "results X"] a b show ?thesis by simp
qed

text \<open>
  C2. A judgement that is not ignored and whose outcome, as the score processor returns it,
  is a counted one (it has a bit of \<open>BaseHitsM\<close>) adds one to the number of counted objects
  and leaves the player with the grade that the thresholds of the specification give for
  the new hit counts: SS or SSH when every counted object is a 300, and so on down to D, the
  H grades going to the players with Hidden or Flashlight. The number of counted objects
  before the judgement is a non-negative \<^verbatim>\<open>int64\<close> below its maximum.
\<close>

theorem SendResult_grade:
  assumes "result \<noteq> Ignore (results X)" "result \<noteq> PositionalMiss (results X)"
    and "cursors rs c = Some sub0"
    and "spModifyResult X result src (scoreProcessor sub0) AND BaseHitsM (results X) > 0"
    and "0 \<le> numObjects sub0" and "numObjects sub0 < 9223372036854775807"
    and "SendResult X rs time c src x y result comboResult = Some (rs', evs)"
  shows "\<exists>sub'. cursors rs' c = Some sub' \<and> numObjects sub' = numObjects sub0 + 1 \<and>
     grade sub' = specGrade (hits sub' (Hit300 (results X))) (hits sub' (Hit50 (results X)))
        (hits sub' (Miss (results X))) (numObjects sub') (Mods (player sub') \<inter> {Hidden, Flashlight} \<noteq> {})"
proof -
  let ?r1 = "spModifyResult X result src (scoreProcessor sub0)"
  let ?agg = "aggregate X ?r1 comboResult sub0"
  from SendResult_counted[OF assms(1,2,3,7)] obtain sub1 sub2 result2 where
    s: "updatePP X rs ?agg = Some sub1"
       "closeRun (results X) (HitObjects (beatMap rs)) (processed rs) (number src) ?r1 (countRun (results X) ?r1 sub1) = Some (sub2, result2)"
       "map_option scorePart (cursors rs' c) = Some (scorePart sub2)"
    by blast
  from scorePart_eqD[OF s(3)] obtain sub' where
    p: "cursors rs' c = Some sub'" "numObjects sub' = numObjects sub2" "grade sub' = grade sub2"
       "hits sub' = hits sub2" "player sub' = player sub2" by blast
  from after_aggregate[OF s(1,2)] have
    q: "numObjects sub2 = numObjects ?agg" "grade sub2 = grade ?agg" "hits sub2 = hits ?agg" "player sub2 = player ?agg"
    by auto
  have "i64 (numObjects sub0 + 1) = numObjects sub0 + 1"
    using assms(5,6) by (intro i64_id) (simp add: isInt64_def)
  then have n: "numObjects ?agg = numObjects sub0 + 1"
    using assms(4) aggregate_counts[of X ?r1 comboResult sub0] by (simp add: countResult_def)
  then have "numObjects ?agg \<noteq> 0" using assms(5) by simp
  from aggregate_spec[OF this] p q n show ?thesis by simp
qed

section \<open>The accuracy invariant: proofs\<close>

lemma aggregate_accuracy:
  "accuracy (aggregate X result cr sub) = accuracy (updateAccuracy (countResult (results X) result sub))"
  unfolding aggregate_unfold
  by (simp add: updateGrade_keeps updateAccuracy_def countResult_def)

lemma accInv_bounds:
  assumes "accInv L sub"
  shows "0 \<le> accuracy sub \<and> accuracy sub \<le> 100"
proof (cases "numObjects sub = 0")
  case True
  with assms show ?thesis by (simp add: accInv_def)
next
  case False
  let ?q = "100 * real_of_int (rawScore sub) / real_of_int (numObjects sub * 300)"
  from assms have r: "0 \<le> rawScore sub" "rawScore sub \<le> 300 * numObjects sub"
    and a: "accuracy sub = fl64 ?q"
    using False by (auto simp: accInv_def)
  from r False have n: "0 < numObjects sub" by linarith
  then have d: "0 < real_of_int (numObjects sub * 300)" by simp
  have "100 * real_of_int (rawScore sub) \<le> 100 * real_of_int (numObjects sub * 300)"
    using r(2) by (simp add: mult.commute)
  then have hi: "?q \<le> 100" using d by (simp add: divide_le_eq)
  have lo: "0 \<le> ?q" using r(1) d by simp
  have f0: "isFloat64 0" using isFloat64_of_int[of 0] by simp
  have f100: "isFloat64 100" using isFloat64_of_int[of 100] by simp
  from fl64_between[OF f0 f100 lo hi] a show ?thesis by simp
qed

lemma accuracy_rounded_once:
  assumes "0 \<le> raw" "raw \<le> 300 * n" "0 \<le> n" "30000 * n \<le> 9007199254740992"
  shows "fl64 (fl64 (100 * fl64 (real_of_int raw)) / fl64 (real_of_int (n * 300)))
       = fl64 (100 * real_of_int raw / real_of_int (n * 300))"
proof -
  have "\<bar>raw\<bar> \<le> 9007199254740992" using assms by linarith
  then have a: "fl64 (real_of_int raw) = real_of_int raw" by (rule fl64_of_int)
  have "\<bar>100 * raw\<bar> \<le> 9007199254740992" using assms by linarith
  then have "fl64 (real_of_int (100 * raw)) = real_of_int (100 * raw)" by (rule fl64_of_int)
  then have b: "fl64 (100 * real_of_int raw) = 100 * real_of_int raw" by simp
  have "\<bar>n * 300\<bar> \<le> 9007199254740992" using assms by linarith
  then have c: "fl64 (real_of_int (n * 300)) = real_of_int (n * 300)" by (rule fl64_of_int)
  show ?thesis unfolding a b c by (rule refl)
qed

lemma aggregate_accInv:
  assumes sv: "\<forall>r. r AND BaseHitsM (results X) > 0 \<longrightarrow>
                  0 \<le> ScoreValue (results X) r \<and> ScoreValue (results X) r \<le> 300"
    and big: "30000 * (L + 1) \<le> 9007199254740992"
    and inv: "accInv L sub"
    and idx: "MaxI64 0 (i64 (numObjects (aggregate X result cr sub) - 1)) < L"
  shows "accInv L (aggregate X result cr sub)"
proof -
  let ?K = "results X"
  let ?agg = "aggregate X result cr sub"
  from inv have r: "0 \<le> rawScore sub" "rawScore sub \<le> 300 * numObjects sub" "numObjects sub \<le> L"
    by (auto simp: accInv_def)
  then have n0: "0 \<le> numObjects sub" by linarith
  note cnt = aggregate_counts[of X result cr sub]
  show ?thesis
  proof (cases "result AND BaseHitsM ?K > 0")
    case False
    then have c: "countResult ?K result sub = sub" by (simp add: countResult_def)
    have w: "i64 (numObjects sub * 300) = numObjects sub * 300"
      using n0 r(3) big by (intro i64_id) (simp add: isInt64_def)
    have "30000 * numObjects sub \<le> 30000 * (L + 1)" using r(3) by simp
    with big have "30000 * numObjects sub \<le> 9007199254740992" by (rule order_trans[rotated])
    note once = accuracy_rounded_once[OF r(1,2) n0 this]
    have "accuracy ?agg = (if numObjects sub = 0 then 100
        else fl64 (100 * real_of_int (rawScore sub) / real_of_int (numObjects sub * 300)))"
      using w once by (simp add: aggregate_accuracy c updateAccuracy_def)
    with cnt c r show ?thesis by (simp add: accInv_def)
  next
    case True
    let ?v = "ScoreValue ?K result"
    from sv True have v: "0 \<le> ?v" "?v \<le> 300" by auto
    have w1: "i64 (numObjects sub + 1) = numObjects sub + 1"
      using n0 r(3) big by (intro i64_id) (simp add: isInt64_def)
    have w2: "i64 (rawScore sub + ?v) = rawScore sub + ?v"
      using r v big by (intro i64_id) (simp add: isInt64_def)
    have n: "numObjects ?agg = numObjects sub + 1" and rw: "rawScore ?agg = rawScore sub + ?v"
      using cnt True w1 w2 by (simp_all add: countResult_def)
    have "i64 (numObjects sub + 1 - 1) = numObjects sub"
      using n0 r(3) big by (simp add: i64_id isInt64_def)
    with idx n have le: "numObjects sub + 1 \<le> L" using n0 by (simp add: MaxI64_def split: if_splits)
    have w3: "i64 ((numObjects sub + 1) * 300) = (numObjects sub + 1) * 300"
      using n0 le big by (intro i64_id) (simp add: isInt64_def)
    have o1: "0 \<le> rawScore sub + ?v" using r v by linarith
    have o2: "rawScore sub + ?v \<le> 300 * (numObjects sub + 1)" using r v by (simp add: algebra_simps)
    have o3: "0 \<le> numObjects sub + 1" using n0 by linarith
    have "30000 * (numObjects sub + 1) \<le> 30000 * (L + 1)" using le by simp
    with big have o4: "30000 * (numObjects sub + 1) \<le> 9007199254740992" by (rule order_trans[rotated])
    note once = accuracy_rounded_once[OF o1 o2 o3 o4]
    have "accuracy ?agg = fl64 (100 * real_of_int (rawScore sub + ?v) / real_of_int ((numObjects sub + 1) * 300))"
      using True w1 w2 w3 n0 once by (simp add: aggregate_accuracy updateAccuracy_def countResult_def)
    with n rw le r v n0 show ?thesis by (simp add: accInv_def)
  qed
qed

lemma scorePart_back:
  assumes "map_option scorePart (cursors rs' c') = map_option scorePart (cursors rs c')"
    and "cursors rs' c' = Some sub'"
  shows "\<exists>sub. cursors rs c' = Some sub \<and> scorePart sub = scorePart sub'"
  using assms by (cases "cursors rs c'") auto

lemma accInv_cong:
  assumes "scorePart sub' = scorePart sub"
  shows "accInv L sub' = accInv L sub"
  using assms by (simp add: scorePart_def accInv_def)

lemma SendResult_ignored_state:
  assumes "result = Ignore (results X) \<or> result = PositionalMiss (results X)"
    and "SendResult X rs time c src x y result comboResult = Some (rs', evs)"
  shows "rs' = rs"
  using assms by (auto simp: SendResult_def Let_def split: if_splits option.splits)

lemma SendResult_absent:
  assumes "result \<noteq> Ignore (results X)" "result \<noteq> PositionalMiss (results X)" "cursors rs c = None"
  shows "SendResult X rs time c src x y result comboResult = None"
  using assms by (simp add: SendResult_def Let_def)

lemma mapStats_of:
  assumes "rs'\<lparr>cursors := cursors rs\<rparr> = rs"
  shows "mapStats rs' = mapStats rs"
proof -
  have "mapStats (rs'\<lparr>cursors := cursors rs\<rparr>) = mapStats rs'" by simp
  with assms show ?thesis by simp
qed

lemma SendResult_rsInv:
  assumes sv: "\<forall>r. r AND BaseHitsM (results X) > 0 \<longrightarrow>
                  0 \<le> ScoreValue (results X) r \<and> ScoreValue (results X) r \<le> 300"
    and big: "30000 * (L + 1) \<le> 9007199254740992"
    and inv: "rsInv L rs"
    and run: "SendResult X rs time c src x y result comboResult = Some (rs', evs)"
  shows "rsInv L rs'"
proof (cases "result = Ignore (results X) \<or> result = PositionalMiss (results X)")
  case True
  from SendResult_ignored_state[OF True run] inv show ?thesis by simp
next
  case False
  then have ni: "result \<noteq> Ignore (results X)" "result \<noteq> PositionalMiss (results X)" by auto
  from SendResult_absent[OF ni] run obtain sub0 where sub0: "cursors rs c = Some sub0"
    by (cases "cursors rs c") auto
  let ?r1 = "spModifyResult X result src (scoreProcessor sub0)"
  let ?agg = "aggregate X ?r1 comboResult sub0"
  from SendResult_counted[OF ni sub0 run] obtain sub1 sub2 result2 where
    s: "updatePP X rs ?agg = Some sub1"
       "closeRun (results X) (HitObjects (beatMap rs)) (processed rs) (number src) ?r1 (countRun (results X) ?r1 sub1) = Some (sub2, result2)"
       "rs'\<lparr>cursors := cursors rs\<rparr> = rs"
       "map_option scorePart (cursors rs' c) = Some (scorePart sub2)"
       "\<forall>c'. c' \<noteq> c \<longrightarrow> map_option scorePart (cursors rs' c') = map_option scorePart (cursors rs c')"
    by blast
  from inv have len: "int (length (mapStats rs)) = L" and all: "\<And>c sub. cursors rs c = Some sub \<Longrightarrow> accInv L sub"
    by (auto simp: rsInv_def)
  from after_aggregate[OF s(1,2)] have
    q: "rawScore sub2 = rawScore ?agg" "accuracy sub2 = accuracy ?agg" "numObjects sub2 = numObjects ?agg"
    and idx: "MaxI64 0 (i64 (numObjects ?agg - 1)) < int (length (mapStats rs))"
    by auto
  have "accInv L ?agg"
    using sv big all[OF sub0] idx len by (intro aggregate_accInv) auto
  with q have i2: "accInv L sub2" by (simp add: accInv_def)
  have "\<forall>c' sub'. cursors rs' c' = Some sub' \<longrightarrow> accInv L sub'"
  proof (intro allI impI)
    fix c' sub' assume h: "cursors rs' c' = Some sub'"
    show "accInv L sub'"
    proof (cases "c' = c")
      case True
      with h s(4) have "scorePart sub' = scorePart sub2" by simp
      from accInv_cong[OF this] i2 show ?thesis by simp
    next
      case False
      with s(5) have "map_option scorePart (cursors rs' c') = map_option scorePart (cursors rs c')" by blast
      from scorePart_back[OF this h] obtain sub where "cursors rs c' = Some sub" "scorePart sub = scorePart sub'"
        by blast
      with accInv_cong[of sub' sub L] all show ?thesis by simp
    qed
  qed
  with mapStats_of[OF s(3)] len show ?thesis by (simp add: rsInv_def)
qed

lemma hpUpdateFor_scorePart:
  assumes "hpUpdateFor X time c rs = Some (rs', evs)"
  shows "rs'\<lparr>cursors := cursors rs\<rparr> = rs \<and>
     (\<forall>c'. map_option scorePart (cursors rs' c') = map_option scorePart (cursors rs c'))"
proof (cases "cursors rs c")
  case None
  with assms show ?thesis by (simp add: hpUpdateFor_def)
next
  case (Some sub)
  let ?h = "fst (hpUpdate X time (hp sub))"
  let ?rs1 = "rs\<lparr>cursors := (cursors rs)(c \<mapsto> sub\<lparr>hp := ?h\<rparr>)\<rparr>"
  have one: "?rs1\<lparr>cursors := cursors rs\<rparr> = rs \<and>
     (\<forall>c'. map_option scorePart (cursors ?rs1 c') = map_option scorePart (cursors rs c'))"
    using Some by (simp add: scorePart_def)
  show ?thesis
  proof (cases "snd (hpUpdate X time (hp sub))")
    case False
    with assms Some have "rs' = ?rs1" by (simp add: hpUpdateFor_def split_beta)
    with one show ?thesis by simp
  next
    case True
    with assms Some have "failInternal X ?rs1 (player sub) = Some (rs', evs)"
      by (simp add: hpUpdateFor_def split_beta)
    from failInternal_scorePart[OF this] have
      two: "rs'\<lparr>cursors := cursors ?rs1\<rparr> = ?rs1"
        "\<forall>c'. map_option scorePart (cursors rs' c') = map_option scorePart (cursors ?rs1 c')" by auto
    from two(1) have "(rs'\<lparr>cursors := cursors ?rs1\<rparr>)\<lparr>cursors := cursors rs\<rparr> = ?rs1\<lparr>cursors := cursors rs\<rparr>" by simp
    then have "rs'\<lparr>cursors := cursors rs\<rparr> = rs" by simp
    with two(2) one show ?thesis by simp
  qed
qed

lemma hpLoop_scorePart:
  assumes "hpLoop X time order rs = Some (rs', evs)"
  shows "rs'\<lparr>cursors := cursors rs\<rparr> = rs \<and>
     (\<forall>c'. map_option scorePart (cursors rs' c') = map_option scorePart (cursors rs c'))"
  using assms
proof (induction order arbitrary: rs rs' evs)
  case Nil
  then show ?case by simp
next
  case (Cons c cs)
  from Cons.prems obtain rs1 evs1 evs2 where
    a: "hpUpdateFor X time c rs = Some (rs1, evs1)" and b: "hpLoop X time cs rs1 = Some (rs', evs2)"
    by (auto split: option.splits)
  from hpUpdateFor_scorePart[OF a] have
    one: "rs1\<lparr>cursors := cursors rs\<rparr> = rs"
      "\<forall>c'. map_option scorePart (cursors rs1 c') = map_option scorePart (cursors rs c')" by auto
  from Cons.IH[OF b] have
    two: "rs'\<lparr>cursors := cursors rs1\<rparr> = rs1"
      "\<forall>c'. map_option scorePart (cursors rs' c') = map_option scorePart (cursors rs1 c')" by auto
  from two(1) have "(rs'\<lparr>cursors := cursors rs1\<rparr>)\<lparr>cursors := cursors rs\<rparr> = rs1\<lparr>cursors := cursors rs\<rparr>" by simp
  with one(1) have "rs'\<lparr>cursors := cursors rs\<rparr> = rs" by simp
  with one(2) two(2) show ?case by simp
qed

lemma Update_scorePart:
  fixes X :: "('sp, 'hp, 'pp, 'st) Externals"
  assumes "Update X up order rs time = Some (rs', evs)"
  shows "mapStats rs' = mapStats rs \<and>
     (\<forall>c'. map_option scorePart (cursors rs' c') = map_option scorePart (cursors rs c'))"
proof -
  obtain procd1 evs1 where p1: "retire up (endListener rs) time (processed rs) = (procd1, evs1 :: 'pp Event list)"
    by (cases "retire up (endListener rs) time (processed rs) :: HitObject list \<times> 'pp Event list") auto
  obtain q2 procd2 where p2: "activate time (queue rs) procd1 = (q2, procd2)"
    by (cases "activate time (queue rs) procd1") auto
  let ?rs1 = "rs\<lparr>queue := q2, processed := procd2\<rparr>"
  from assms p1 p2 obtain rs2 evs2 where
    l: "hpLoop X time order ?rs1 = Some (rs2, evs2)"
    and r: "rs' = (if queue rs2 = [] \<and> processed rs2 = [] \<and> \<not> ended rs2 then rs2\<lparr>ended := True\<rparr> else rs2)"
    by (auto simp: Update_def Let_def split: option.splits)
  from hpLoop_scorePart[OF l] have
    one: "rs2\<lparr>cursors := cursors ?rs1\<rparr> = ?rs1"
      "\<forall>c'. map_option scorePart (cursors rs2 c') = map_option scorePart (cursors ?rs1 c')" by auto
  from mapStats_of[OF one(1)] have "mapStats rs2 = mapStats rs" by simp
  with one(2) r show ?thesis by simp
qed

lemma Update_rsInv:
  assumes "rsInv L rs" "Update X up order rs time = Some (rs', evs)"
  shows "rsInv L rs'"
proof -
  from Update_scorePart[OF assms(2)] have
    m: "mapStats rs' = mapStats rs"
    and sp: "\<And>c'. map_option scorePart (cursors rs' c') = map_option scorePart (cursors rs c')" by auto
  have "\<forall>c' sub'. cursors rs' c' = Some sub' \<longrightarrow> accInv L sub'"
  proof (intro allI impI)
    fix c' sub' assume h: "cursors rs' c' = Some sub'"
    from scorePart_back[OF sp[of c'] h] obtain sub where "cursors rs c' = Some sub" "scorePart sub = scorePart sub'"
      by blast
    with accInv_cong[of sub' sub L] assms(1) show "accInv L sub'" by (simp add: rsInv_def)
  qed
  with m assms(1) show ?thesis by (simp add: rsInv_def)
qed

lemma step_rsInv:
  assumes "\<forall>r. r AND BaseHitsM (results X) > 0 \<longrightarrow>
                  0 \<le> ScoreValue (results X) r \<and> ScoreValue (results X) r \<le> 300"
    and "30000 * (L + 1) \<le> 9007199254740992"
    and "rsInv L rs"
    and "step X up order rs call = Some (rs', evs)"
  shows "rsInv L rs'"
proof (cases call)
  case (SendResultCall time c src x y result comboResult)
  with assms(4) have "SendResult X rs time c src x y result comboResult = Some (rs', evs)" by simp
  from SendResult_rsInv[OF assms(1,2,3) this] show ?thesis .
next
  case (UpdateCall time)
  with assms(4) have "Update X up order rs time = Some (rs', evs)" by simp
  from Update_rsInv[OF assms(3) this] show ?thesis .
qed

lemma drive_rsInv:
  assumes "\<forall>r. r AND BaseHitsM (results X) > 0 \<longrightarrow>
                  0 \<le> ScoreValue (results X) r \<and> ScoreValue (results X) r \<le> 300"
    and "30000 * (L + 1) \<le> 9007199254740992"
  shows "rsInv L rs \<Longrightarrow> drive X up rs calls = Some trajectory \<Longrightarrow> \<forall>rs' \<in> set trajectory. rsInv L rs'"
proof (induction calls arbitrary: rs trajectory)
  case Nil
  then show ?case by simp
next
  case (Cons a calls)
  obtain call order where a: "a = (call, order)" by (cases a)
  from Cons.prems(2) a obtain rs1 evs tr where
    s: "step X up order rs call = Some (rs1, evs)" "drive X up rs1 calls = Some tr" "trajectory = rs1 # tr"
    by (auto split: option.splits)
  from step_rsInv[OF assms Cons.prems(1) s(1)] have i1: "rsInv L rs1" .
  from Cons.IH[OF i1 s(2)] i1 s(3) show ?case by simp
qed

lemma initPlayers_fresh:
  assumes "\<forall>c sub. cm c = Some sub \<longrightarrow>
             rawScore sub = 0 \<and> numObjects sub = 0 \<and> accuracy sub = 100 \<and> cursor (player sub) = c"
    and "initPlayers X bm e cs ms cm od = Some (cm', od')"
  shows "\<forall>c sub. cm' c = Some sub \<longrightarrow>
             rawScore sub = 0 \<and> numObjects sub = 0 \<and> accuracy sub = 100 \<and> cursor (player sub) = c"
  using assms
proof (induction X bm e cs ms cm od rule: initPlayers.induct)
  case (1 X bm e ms cm od)
  then show ?case by simp
next
  case (2 X bm e c cs cm od)
  then show ?case by simp
next
  case (3 X bm e c cs m ms cm od)
  let ?pl = "newPlayer (cid c) (m \<union> (DiffMods bm \<inter> {ScoreV2}))"
  let ?key = "m \<inter> DifficultyAdjustMask X"
  let ?stars = "CalculateStep X (HitObjects bm) (Mods ?pl) e"
  let ?cm = "cm(cid c \<mapsto> newSubSet X bm c ?pl)"
  let ?od = "if od ?key = [] then od(?key := ?stars) else od"
  from "3.prems"(2) have ne: "\<not> (od ?key = [] \<and> ?stars = [])"
    by (auto simp: Let_def split: if_splits)
  with "3.prems"(2) have rec: "initPlayers X bm e cs ms ?cm ?od = Some (cm', od')"
    by (simp add: Let_def)
  have fresh: "\<forall>c' sub. ?cm c' = Some sub \<longrightarrow>
             rawScore sub = 0 \<and> numObjects sub = 0 \<and> accuracy sub = 100 \<and> cursor (player sub) = c'"
    using "3.prems"(1) by (auto simp: newSubSet_def newPlayer_def)
  from "3.IH"[OF refl refl refl ne fresh rec] show ?case .
qed

lemma NewOsuRuleset_fresh:
  assumes "NewOsuRuleset X bm cs ms = Some rs0"
  shows "length (mapStats rs0) = length (HitObjects bm) \<and>
     (\<forall>c sub. cursors rs0 c = Some sub \<longrightarrow>
        rawScore sub = 0 \<and> numObjects sub = 0 \<and> accuracy sub = 100 \<and> cursor (player sub) = c)"
proof -
  from assms obtain cm od where
    i: "initPlayers X bm (UseLazerPP X) cs ms Map.empty (\<lambda>_. []) = Some (cm, od)"
    and r: "cursors rs0 = cm" "mapStats rs0 = buildMapStats (HitObjects bm) []"
    by (auto simp: NewOsuRuleset_def split: option.splits)
  have "\<forall>c sub. (Map.empty :: Cursor \<rightharpoonup> ('a, 'b, 'c) subSet) c = Some sub \<longrightarrow>
             rawScore sub = 0 \<and> numObjects sub = 0 \<and> accuracy sub = 100 \<and> cursor (player sub) = c"
    by simp
  from initPlayers_fresh[OF this i] r show ?thesis by (simp add: buildMapStats_length)
qed

lemma NewOsuRuleset_rsInv:
  assumes "NewOsuRuleset X bm cs ms = Some rs0"
  shows "rsInv (int (length (HitObjects bm))) (rs0\<lparr>hitListener := hl, endListener := el, failListener := fl\<rparr>)"
  using NewOsuRuleset_fresh[OF assms] by (simp add: rsInv_def accInv_def)

text \<open>
  C3, as the code has it. The ruleset is constructed for a beatmap and driven by any list
  of calls of \<open>SendResult\<close> and \<open>Update\<close>, with any listeners registered. Then in the initial
  ruleset and after every call, for every player, the accuracy lies between 0 and 100; it
  is 100 while no object has been counted, and afterwards it is the \<^verbatim>\<open>float64\<close> nearest to
  \<open>100 * rawScore / (numObjects * 300)\<close>, the exact quotient rounded once. The score value of
  a counted outcome, which is declared outside the sources, is taken to lie between 0 and
  300, and the map is short enough for 100 times 300 points per object to stay below
  \<open>2^53\<close>: the conversions and the product of the source are then exact, and only its
  quotient is rounded.
\<close>

theorem accuracy_invariant:
  assumes "\<forall>r. r AND BaseHitsM (results X) > 0 \<longrightarrow>
                  0 \<le> ScoreValue (results X) r \<and> ScoreValue (results X) r \<le> 300"
    and "30000 * (int (length (HitObjects bm)) + 1) \<le> 9007199254740992"
    and "NewOsuRuleset X bm cs ms = Some rs0"
    and "drive X up (rs0\<lparr>hitListener := hl, endListener := el, failListener := fl\<rparr>) calls = Some trajectory"
    and "rs \<in> set (rs0\<lparr>hitListener := hl, endListener := el, failListener := fl\<rparr> # trajectory)"
    and "cursors rs c = Some sub"
  shows "0 \<le> accuracy sub \<and> accuracy sub \<le> 100 \<and>
     accuracy sub = (if numObjects sub = 0 then 100
                     else fl64 (100 * real_of_int (rawScore sub) / real_of_int (numObjects sub * 300)))"
proof -
  let ?L = "int (length (HitObjects bm))"
  let ?rs0 = "rs0\<lparr>hitListener := hl, endListener := el, failListener := fl\<rparr>"
  have i0: "rsInv ?L ?rs0" by (rule NewOsuRuleset_rsInv[OF assms(3)])
  from drive_rsInv[OF assms(1,2) i0 assms(4)] i0 assms(5) have "rsInv ?L rs" by auto
  with assms(6) have a: "accInv ?L sub" by (simp add: rsInv_def)
  from accInv_bounds[OF a] a show ?thesis by (simp add: accInv_def)
qed

section \<open>Independence of the iteration order: proofs\<close>

lemma player_failSub: "player (failSub X sub) = player sub"
  by (simp add: failSub_def)

lemma player_hpSub: "player (hpSub X time sub) = player sub"
  by (simp add: hpSub_def player_failSub)

lemma hpUpdateFor_keyed:
  assumes "playersKeyed rs"
  shows "\<exists>evs. hpUpdateFor X time c rs =
     Some (rs\<lparr>cursors := (cursors rs)(c := map_option (hpSub X time) (cursors rs c))\<rparr>, evs)"
proof (cases "cursors rs c")
  case None
  then have "(cursors rs)(c := None) = cursors rs" by (simp add: fun_upd_idem)
  with None show ?thesis by (simp add: hpUpdateFor_def)
next
  case (Some sub)
  with assms have k: "cursor (player sub) = c" by (simp add: playersKeyed_def)
  let ?sub1 = "sub\<lparr>hp := fst (hpUpdate X time (hp sub))\<rparr>"
  let ?rs1 = "rs\<lparr>cursors := (cursors rs)(c \<mapsto> ?sub1)\<rparr>"
  show ?thesis
  proof (cases "snd (hpUpdate X time (hp sub))")
    case False
    with Some show ?thesis by (simp add: hpUpdateFor_def split_beta hpSub_def)
  next
    case True
    have "cursors ?rs1 (cursor (player sub)) = Some ?sub1" using k by simp
    moreover have "player ?sub1 = player sub" by simp
    ultimately obtain evs where
      "failInternal X ?rs1 (player sub) = Some (?rs1\<lparr>cursors := (cursors ?rs1)(cursor (player sub) \<mapsto> failSub X ?sub1)\<rparr>, evs)"
      using failInternal_keyed[of ?rs1 "player sub" ?sub1 X] by blast
    with True Some k show ?thesis by (simp add: hpUpdateFor_def split_beta hpSub_def)
  qed
qed

lemma playersKeyed_upd:
  assumes "playersKeyed rs"
  shows "playersKeyed (rs\<lparr>cursors := (cursors rs)(c := map_option (hpSub X time) (cursors rs c))\<rparr>)"
  using assms by (auto simp: playersKeyed_def player_hpSub)

lemma hpLoop_keyed:
  assumes "playersKeyed rs" "distinct order"
  shows "\<exists>evs. hpLoop X time order rs =
     Some (rs\<lparr>cursors := (\<lambda>c. if c \<in> set order then map_option (hpSub X time) (cursors rs c) else cursors rs c)\<rparr>, evs)"
  using assms
proof (induction order arbitrary: rs)
  case Nil
  then show ?case by simp
next
  case (Cons c cs)
  let ?rs1 = "rs\<lparr>cursors := (cursors rs)(c := map_option (hpSub X time) (cursors rs c))\<rparr>"
  from hpUpdateFor_keyed[OF Cons.prems(1), of X time c] obtain evs1 where
    a: "hpUpdateFor X time c rs = Some (?rs1, evs1)" by blast
  have k1: "playersKeyed ?rs1" by (rule playersKeyed_upd[OF Cons.prems(1)])
  from Cons.prems(2) have d: "distinct cs" "c \<notin> set cs" by auto
  from Cons.IH[OF k1 d(1)] obtain evs2 where
    b: "hpLoop X time cs ?rs1 =
      Some (?rs1\<lparr>cursors := (\<lambda>c'. if c' \<in> set cs then map_option (hpSub X time) (cursors ?rs1 c') else cursors ?rs1 c')\<rparr>, evs2)"
    by blast
  have "(\<lambda>c'. if c' \<in> set cs then map_option (hpSub X time) (cursors ?rs1 c') else cursors ?rs1 c')
      = (\<lambda>c'. if c' \<in> set (c # cs) then map_option (hpSub X time) (cursors rs c') else cursors rs c')"
    using d(2) by (auto simp: fun_eq_iff)
  with a b show ?case by simp
qed

lemma hpLoop_order:
  assumes "playersKeyed rs" "sameKeys o1 o2"
  shows "map_option fst (hpLoop X time o1 rs) = map_option fst (hpLoop X time o2 rs)"
proof -
  from assms(2) have d: "distinct o1" "distinct o2" "set o1 = set o2" by (auto simp: sameKeys_def)
  from hpLoop_keyed[OF assms(1) d(1), of X time] hpLoop_keyed[OF assms(1) d(2), of X time] d(3)
  show ?thesis by auto
qed

lemma Update_order:
  fixes X :: "('sp, 'hp, 'pp, 'st) Externals"
  assumes "playersKeyed rs" "sameKeys o1 o2"
  shows "map_option fst (Update X up o1 rs time) = map_option fst (Update X up o2 rs time)"
proof -
  obtain procd1 evs1 where p1: "retire up (endListener rs) time (processed rs) = (procd1, evs1 :: 'pp Event list)"
    by (cases "retire up (endListener rs) time (processed rs) :: HitObject list \<times> 'pp Event list") auto
  obtain q2 procd2 where p2: "activate time (queue rs) procd1 = (q2, procd2)"
    by (cases "activate time (queue rs) procd1") auto
  let ?rs1 = "rs\<lparr>queue := q2, processed := procd2\<rparr>"
  have k: "playersKeyed ?rs1" using assms(1) by (simp add: playersKeyed_def)
  from hpLoop_order[OF k assms(2), of X time]
  have e: "map_option fst (hpLoop X time o1 ?rs1) = map_option fst (hpLoop X time o2 ?rs1)" .
  show ?thesis
  proof (cases "hpLoop X time o1 ?rs1")
    case None
    with e have "hpLoop X time o2 ?rs1 = None" by simp
    with None p1 p2 show ?thesis by (simp add: Update_def)
  next
    case (Some a)
    with e obtain b where b: "hpLoop X time o2 ?rs1 = Some b" "fst b = fst a" by (cases "hpLoop X time o2 ?rs1") auto
    with Some p1 p2 show ?thesis by (simp add: Update_def split_beta)
  qed
qed

lemma step_order:
  assumes "playersKeyed rs" "sameKeys o1 o2"
  shows "map_option fst (step X up o1 rs call) = map_option fst (step X up o2 rs call)"
proof (cases call)
  case (SendResultCall time c src x y result comboResult)
  then show ?thesis by simp
next
  case (UpdateCall time)
  with Update_order[OF assms] show ?thesis by simp
qed

lemma playersKeyed_scorePart:
  assumes "playersKeyed rs"
    and "\<forall>c'. map_option scorePart (cursors rs' c') = map_option scorePart (cursors rs c')"
  shows "playersKeyed rs'"
  unfolding playersKeyed_def
proof (intro allI impI)
  fix c sub' assume h: "cursors rs' c = Some sub'"
  from assms(2) have "map_option scorePart (cursors rs' c) = map_option scorePart (cursors rs c)" by blast
  from scorePart_back[OF this h] obtain sub where s: "cursors rs c = Some sub" "scorePart sub = scorePart sub'" by blast
  from s(2) have "player sub' = player sub" by (simp add: scorePart_def)
  with s(1) assms(1) show "cursor (player sub') = c" by (simp add: playersKeyed_def)
qed

lemma SendResult_keyed:
  assumes "playersKeyed rs" "SendResult X rs time c src x y result comboResult = Some (rs', evs)"
  shows "playersKeyed rs'"
proof (cases "result = Ignore (results X) \<or> result = PositionalMiss (results X)")
  case True
  from SendResult_ignored_state[OF True assms(2)] assms(1) show ?thesis by simp
next
  case False
  then have ni: "result \<noteq> Ignore (results X)" "result \<noteq> PositionalMiss (results X)" by auto
  from SendResult_absent[OF ni] assms(2) obtain sub0 where sub0: "cursors rs c = Some sub0"
    by (cases "cursors rs c") auto
  let ?r1 = "spModifyResult X result src (scoreProcessor sub0)"
  let ?agg = "aggregate X ?r1 comboResult sub0"
  from SendResult_counted[OF ni sub0 assms(2)] obtain sub1 sub2 result2 where
    s: "updatePP X rs ?agg = Some sub1"
       "closeRun (results X) (HitObjects (beatMap rs)) (processed rs) (number src) ?r1 (countRun (results X) ?r1 sub1) = Some (sub2, result2)"
       "map_option scorePart (cursors rs' c) = Some (scorePart sub2)"
       "\<forall>c'. c' \<noteq> c \<longrightarrow> map_option scorePart (cursors rs' c') = map_option scorePart (cursors rs c')"
    by blast
  from after_aggregate[OF s(1,2)] aggregate_counts[of X ?r1 comboResult sub0]
  have pl: "player sub2 = player sub0" by simp
  show ?thesis
    unfolding playersKeyed_def
  proof (intro allI impI)
    fix c' sub' assume h: "cursors rs' c' = Some sub'"
    show "cursor (player sub') = c'"
    proof (cases "c' = c")
      case True
      with h s(3) have "scorePart sub' = scorePart sub2" by simp
      then have "player sub' = player sub2" by (simp add: scorePart_def)
      with pl sub0 assms(1) True show ?thesis by (simp add: playersKeyed_def)
    next
      case False
      with s(4) have "map_option scorePart (cursors rs' c') = map_option scorePart (cursors rs c')" by blast
      from scorePart_back[OF this h] obtain sub where t: "cursors rs c' = Some sub" "scorePart sub = scorePart sub'" by blast
      from t(2) have "player sub' = player sub" by (simp add: scorePart_def)
      with t(1) assms(1) show ?thesis by (simp add: playersKeyed_def)
    qed
  qed
qed

lemma step_keyed:
  assumes "playersKeyed rs" "step X up order rs call = Some (rs', evs)"
  shows "playersKeyed rs'"
proof (cases call)
  case (SendResultCall time c src x y result comboResult)
  with assms(2) have "SendResult X rs time c src x y result comboResult = Some (rs', evs)" by simp
  from SendResult_keyed[OF assms(1) this] show ?thesis .
next
  case (UpdateCall time)
  with assms(2) have "Update X up order rs time = Some (rs', evs)" by simp
  from Update_scorePart[OF this] playersKeyed_scorePart[OF assms(1)] show ?thesis by blast
qed

lemma drive_order:
  assumes "playersKeyed rs" "length os1 = length calls" "list_all2 sameKeys os1 os2"
  shows "drive X up rs (zip calls os1) = drive X up rs (zip calls os2)"
  using assms
proof (induction calls arbitrary: rs os1 os2)
  case Nil
  then show ?case by simp
next
  case (Cons call calls)
  from Cons.prems(2) obtain o1 os1' where o1: "os1 = o1 # os1'" "length os1' = length calls"
    by (cases os1) auto
  with Cons.prems(3) obtain o2 os2' where o2: "os2 = o2 # os2'" "sameKeys o1 o2" "list_all2 sameKeys os1' os2'"
    by (cases os2) auto
  note e = step_order[OF Cons.prems(1) o2(2), of X up call]
  show ?case
  proof (cases "step X up o1 rs call")
    case None
    with e have "step X up o2 rs call = None" by simp
    with None o1 o2 show ?thesis by simp
  next
    case (Some a)
    obtain rs1 evs1 where a: "a = (rs1, evs1)" by (cases a)
    with Some e obtain evs2 where b: "step X up o2 rs call = Some (rs1, evs2)"
      by (cases "step X up o2 rs call") auto
    from step_keyed[OF Cons.prems(1)] Some a have k: "playersKeyed rs1" by blast
    from Cons.IH[OF k o1(2) o2(3)] Some a b o1 o2 show ?thesis by simp
  qed
qed

text \<open>
  C6. Two rulesets are constructed from the same beatmap, cursors and modifiers, get the
  same listeners and are driven by the same list of calls. Whatever order the map loop of
  \<open>Update\<close> takes through the players in the one and in the other ruleset at each call, both
  rulesets go through the same states, so the score, hit counts, combo, maximum combo,
  accuracy, grade, bonus counters and fail flag of every player agree after every call; a
  panic in one is a panic in the other.
\<close>

theorem drive_deterministic:
  assumes "NewOsuRuleset X bm cs ms = Some rs0"
    and "length os1 = length calls" and "list_all2 sameKeys os1 os2"
  shows "drive X up (rs0\<lparr>hitListener := hl, endListener := el, failListener := fl\<rparr>) (zip calls os1) =
         drive X up (rs0\<lparr>hitListener := hl, endListener := el, failListener := fl\<rparr>) (zip calls os2)"
proof -
  from NewOsuRuleset_fresh[OF assms(1)]
  have "playersKeyed (rs0\<lparr>hitListener := hl, endListener := el, failListener := fl\<rparr>)"
    by (simp add: playersKeyed_def)
  from drive_order[OF this assms(2,3)] show ?thesis .
qed

section \<open>Combo runs: proofs\<close>





















section \<open>The theorems on the example rulesets\<close>

theorem SendResult_grade_witness:
  "Option.bind (SendResult exX (exRuleset {Hidden}) 1000 0 (exTarget Circle 0 False) 0 0 32 Increase)
     (\<lambda>(rs, evs). map_option grade (cursors rs 0)) = Some SSH"
proof -
  let ?call = "SendResult exX (exRuleset {Hidden}) 1000 0 (exTarget Circle 0 False) 0 0 32 Increase"
  have "map_option (\<lambda>_. ()) ?call = Some ()" by code_simp
  then obtain rs' evs where r: "?call = Some (rs', evs)" by (cases ?call) auto
  have vals: "Option.bind ?call (\<lambda>(rs, evs). map_option (\<lambda>s. (hits s 32, hits s 8, hits s 4,
      Mods (player s) \<inter> {Hidden, Flashlight} \<noteq> {})) (cursors rs 0)) = Some (1, 0, 0, True)"
    by code_simp
  have h1: "32 \<noteq> Ignore (results exX)" and h2: "32 \<noteq> PositionalMiss (results exX)"
    by (simp_all add: exX_def exResults_def)
  have h3: "cursors (exRuleset {Hidden}) 0 = Some (exSub {Hidden})" by (simp add: exRuleset_def)
  have h4: "spModifyResult exX 32 (exTarget Circle 0 False) (scoreProcessor (exSub {Hidden})) AND BaseHitsM (results exX) > 0"
    by (simp add: exX_def exResults_def)
  have h5: "0 \<le> numObjects (exSub {Hidden})" and h6: "numObjects (exSub {Hidden}) < 9223372036854775807"
    by (simp_all add: exSub_def newSubSet_def)
  from SendResult_grade[OF h1 h2 h3 h4 h5 h6 r] obtain sub' where
    s: "cursors rs' 0 = Some sub'" "numObjects sub' = numObjects (exSub {Hidden}) + 1"
      "grade sub' = specGrade (hits sub' (Hit300 (results exX))) (hits sub' (Hit50 (results exX)))
        (hits sub' (Miss (results exX))) (numObjects sub') (Mods (player sub') \<inter> {Hidden, Flashlight} \<noteq> {})"
    by blast
  from vals r s(1) have v: "hits sub' 32 = 1" "hits sub' 8 = 0" "hits sub' 4 = 0"
    "Mods (player sub') \<inter> {Hidden, Flashlight} \<noteq> {}" by simp_all
  from s(2) have n: "numObjects sub' = 1" by (simp add: exSub_def newSubSet_def)
  from s(3) v n have "grade sub' = SSH" by (simp add: specGrade_def exX_def exResults_def)
  with r s(1) show ?thesis by simp
qed

theorem accuracy_invariant_witness:
  "\<exists>rs0 trajectory sub. NewOsuRuleset exX exMap exCursors [{}] = Some rs0 \<and>
     drive exX exUpdatePost (rs0\<lparr>hitListener := True, endListener := True, failListener := True\<rparr>) exCalls1 = Some trajectory \<and>
     cursors (last trajectory) 0 = Some sub \<and> numObjects sub = 1 \<and> rawScore sub = 100 \<and>
     0 \<le> accuracy sub \<and> accuracy sub \<le> 100 \<and> accuracy sub = 4691249611844267 / 140737488355328"
proof -
  have "map_option (\<lambda>_. ()) (NewOsuRuleset exX exMap exCursors [{}]) = Some ()" by code_simp
  then obtain rs0 where c: "NewOsuRuleset exX exMap exCursors [{}] = Some rs0"
    by (cases "NewOsuRuleset exX exMap exCursors [{}]") auto
  let ?d = "drive exX exUpdatePost (rs0\<lparr>hitListener := True, endListener := True, failListener := True\<rparr>) exCalls1"
  have "Option.bind (NewOsuRuleset exX exMap exCursors [{}])
      (\<lambda>rs. map_option (\<lambda>tr. (length tr, map_option (\<lambda>s. (numObjects s, rawScore s)) (cursors (last tr) 0)))
         (drive exX exUpdatePost (rs\<lparr>hitListener := True, endListener := True, failListener := True\<rparr>) exCalls1))
      = Some (3, Some (1, 100))" by code_simp
  with c have vals: "map_option (\<lambda>tr. (length tr, map_option (\<lambda>s. (numObjects s, rawScore s)) (cursors (last tr) 0))) ?d
      = Some (3, Some (1, 100))" by simp
  then obtain trajectory where t: "?d = Some trajectory" by (cases ?d) auto
  with vals obtain sub where s: "length trajectory = 3" "cursors (last trajectory) 0 = Some sub"
    "numObjects sub = 1" "rawScore sub = 100"
    by (cases "cursors (last trajectory) 0") auto
  have h1: "\<forall>r. r AND BaseHitsM (results exX) > 0 \<longrightarrow>
      0 \<le> ScoreValue (results exX) r \<and> ScoreValue (results exX) r \<le> 300"
    by (simp add: exX_def exResults_def)
  have h2: "30000 * (int (length (HitObjects exMap)) + 1) \<le> 9007199254740992" by (simp add: exMap_def)
  from s(1) have "trajectory \<noteq> []" by auto
  then have h5: "last trajectory \<in> set (rs0\<lparr>hitListener := True, endListener := True, failListener := True\<rparr> # trajectory)"
    by simp
  have q: "fl64 (100 * 100 / 300) = 4691249611844267 / 140737488355328" by code_simp
  from accuracy_invariant[OF h1 h2 c t h5 s(2)] s(3,4) q
  have "0 \<le> accuracy sub \<and> accuracy sub \<le> 100 \<and> accuracy sub = 4691249611844267 / 140737488355328"
    by simp
  with c t s show ?thesis by blast
qed

text \<open>
  C3 as the specification states it fails on the map of two circles: after a 100 on the
  first circle the accuracy is the \<^verbatim>\<open>float64\<close> 33.333333333333336 (the fraction below), not
  the quotient \<open>100 * 100 / 300\<close>.
\<close>

theorem accuracy_quotient_counterexample:
  "Option.bind (NewOsuRuleset exX exMap exCursors [{}])
     (\<lambda>rs0. Option.bind (drive exX exUpdatePost (SetFailListener (SetEndListener (SetListener rs0))) exCalls1)
        (\<lambda>trajectory. map_option (\<lambda>sub. (numObjects sub, rawScore sub, accuracy sub,
              accuracy sub = 100 * real_of_int (rawScore sub) / real_of_int (numObjects sub * 300)))
           (cursors (last trajectory) 0)))
   = Some (1, 100, 4691249611844267 / 140737488355328, False)"
  by code_simp

theorem drive_deterministic_witness:
  "\<exists>rs0. NewOsuRuleset exX exMap exCursors2 [{}, {Easy}] = Some rs0 \<and>
     drive exX exUpdatePost (rs0\<lparr>hitListener := True, endListener := True, failListener := True\<rparr>)
        (zip exCalls [[0, 1], [], [0, 1]]) =
     drive exX exUpdatePost (rs0\<lparr>hitListener := True, endListener := True, failListener := True\<rparr>)
        (zip exCalls [[1, 0], [], [1, 0]])"
proof -
  have "map_option (\<lambda>_. ()) (NewOsuRuleset exX exMap exCursors2 [{}, {Easy}]) = Some ()" by code_simp
  then obtain rs0 where c: "NewOsuRuleset exX exMap exCursors2 [{}, {Easy}] = Some rs0"
    by (cases "NewOsuRuleset exX exMap exCursors2 [{}, {Easy}]") auto
  have h2: "length [[0, 1], [], [0, 1::nat]] = length exCalls" by (simp add: exCalls_def)
  have h3: "list_all2 sameKeys [[0, 1], [], [0, 1]] [[1, 0], [], [1, 0]]" by (simp add: sameKeys_def insert_commute)
  from drive_deterministic[OF c h2 h3] c show ?thesis by blast
qed



end
